theory Spec2Isabelle
  imports Complex_Main
begin

section \<open>Python primitives used by \<open>ly.pitch\<close>\<close>

text \<open>
  The exceptions the module can raise: \<open>PitchNameNotAvailable\<close> is its own class and
  carries the language; the others are the built-in ones raised by tuple indexing, by a
  dictionary lookup and by reading an attribute that was never set.
\<close>

datatype error =
    PitchNameNotAvailable string
  | IndexError
  | KeyError string
  | AttributeError

text \<open>\<open>text.startswith(s)\<close> and \<open>text.endswith(s)\<close>.\<close>

definition startswith :: "string \<Rightarrow> string \<Rightarrow> bool" where
  "startswith text s = (take (length s) text = s)"

definition endswith :: "string \<Rightarrow> string \<Rightarrow> bool" where
  "endswith text s =
     (length s \<le> length text \<and> drop (length text - length s) text = s)"

text \<open>
  \<open>xs[i]\<close> on a tuple or list: a negative index counts from the end, an index outside
  \<open>-len .. len-1\<close> raises \<open>IndexError\<close>.
\<close>

definition py_index :: "'a list \<Rightarrow> int \<Rightarrow> error + 'a" where
  "py_index xs i =
     (if 0 \<le> i \<and> i < int (length xs) then Inr (xs ! nat i)
      else if - int (length xs) \<le> i \<and> i < 0 then Inr (xs ! nat (int (length xs) + i))
      else Inl IndexError)"

text \<open>\<open>int(q)\<close> on a number: truncation towards zero.\<close>

definition py_int :: "rat \<Rightarrow> int" where
  "py_int q = (if 0 \<le> q then \<lfloor>q\<rfloor> else \<lceil>q\<rceil>)"

text \<open>\<open>xs.index(x)\<close> for an \<open>x\<close> that occurs in \<open>xs\<close>: the first position.\<close>

fun index_of :: "'a list \<Rightarrow> 'a \<Rightarrow> nat" where
  "index_of [] x = 0"
| "index_of (y # ys) x = (if y = x then 0 else Suc (index_of ys x))"

text \<open>
  \<open>text.replace(old, new)\<close>: every non-overlapping occurrence of \<open>old\<close>, found from
  left to right, is replaced. (With an empty \<open>old\<close> Python puts \<open>new\<close> before every
  character and at the end.)
\<close>

function py_replace :: "string \<Rightarrow> string \<Rightarrow> string \<Rightarrow> string" where
  "py_replace [] new text = new @ concat (map (\<lambda>c. c # new) text)"
| "py_replace (k # ks) new [] = []"
| "py_replace (k # ks) new (c # cs) =
     (if startswith (c # cs) (k # ks)
      then new @ py_replace (k # ks) new (drop (length (k # ks)) (c # cs))
      else c # py_replace (k # ks) new cs)"
  by pat_completeness auto
termination
  by (relation "measure (\<lambda>(old, new, text). length text)") auto

section \<open>The language table\<close>

text \<open>
  An entry of \<open>pitchInfo\<close>: the seven note names, the nine accidental suffixes (index
  \<open>alter * 4 + 4\<close>) and the replacement pairs. Entries written with two components take
  the constructors' default \<open>replacements=()\<close>.
\<close>

type_synonym info = "string list \<times> string list \<times> (string \<times> string) list"

definition nederlands :: info where
  "nederlands =
     ([''c'', ''d'', ''e'', ''f'', ''g'', ''a'', ''b''],
      [''eses'', ''eseh'', ''es'', ''eh'', [], ''ih'', ''is'', ''isih'', ''isis''],
      [(''ees'', ''es''), (''aes'', ''as'')])"

definition english :: info where
  "english =
     ([''c'', ''d'', ''e'', ''f'', ''g'', ''a'', ''b''],
      [''ff'', ''tqf'', ''f'', ''qf'', [], ''qs'', ''s'', ''tqs'', ''ss''],
      [])"

definition deutsch :: info where
  "deutsch =
     ([''c'', ''d'', ''e'', ''f'', ''g'', ''a'', ''h''],
      [''eses'', ''eseh'', ''es'', ''eh'', [], ''ih'', ''is'', ''isih'', ''isis''],
      [(''ees'', ''es''), (''aes'', ''as''), (''hes'', ''b'')])"

definition svenska :: info where
  "svenska =
     ([''c'', ''d'', ''e'', ''f'', ''g'', ''a'', ''h''],
      [''essess'', [], ''ess'', [], [], [], ''iss'', [], ''ississ''],
      [(''ees'', ''es''), (''aes'', ''as''), (''hess'', ''b'')])"

definition italiano :: info where
  "italiano =
     ([''do'', ''re'', ''mi'', ''fa'', ''sol'', ''la'', ''si''],
      [''bb'', ''bsb'', ''b'', ''sb'', [], ''sd'', ''d'', ''dsd'', ''dd''],
      [])"

definition espanol :: info where
  "espanol =
     ([''do'', ''re'', ''mi'', ''fa'', ''sol'', ''la'', ''si''],
      [''bb'', [], ''b'', [], [], [], ''s'', [], ''ss''],
      [])"

definition portugues :: info where
  "portugues =
     ([''do'', ''re'', ''mi'', ''fa'', ''sol'', ''la'', ''si''],
      [''bb'', ''btqt'', ''b'', ''bqt'', [], ''sqt'', ''s'', ''stqt'', ''ss''],
      [])"

definition vlaams :: info where
  "vlaams =
     ([''do'', ''re'', ''mi'', ''fa'', ''sol'', ''la'', ''si''],
      [''bb'', [], ''b'', [], [], [], ''k'', [], ''kk''],
      [])"

text \<open>
  The dictionary, as an association list; \<open>norsk\<close>, \<open>suomi\<close> and \<open>catalan\<close> are bound
  to the entries of \<open>deutsch\<close> and \<open>italiano\<close>.
\<close>

definition pitchInfo :: "(string \<times> info) list" where
  "pitchInfo =
     [(''nederlands'', nederlands),
      (''english'', english),
      (''deutsch'', deutsch),
      (''svenska'', svenska),
      (''italiano'', italiano),
      (''espanol'', espanol),
      (''portugues'', portugues),
      (''vlaams'', vlaams),
      (''norsk'', deutsch),
      (''suomi'', deutsch),
      (''catalan'', italiano)]"

definition languages :: "string list" where
  "languages = map fst pitchInfo"

section \<open>Pitch and octave arithmetic\<close>

record Pitch =
  "note" :: int
  alter :: rat
  octave :: int

text \<open>
  The note and the octave are Python integers. The alter is a \<open>Fraction\<close> (as the
  reader returns it) or a float such as \<open>.5\<close>; the multiples of \<open>1/4\<close> the table
  covers are exact in both, so it is a rational here.
\<close>

text \<open>\<open>self.octave += lastPitch.octave - (self.note - lastPitch.note + 3) // 7\<close>;
  Python's \<open>//\<close> on integers rounds towards minus infinity, as \<open>div\<close> on \<open>int\<close> does.
  The method changes \<open>self\<close> and the result is \<open>self\<close> afterwards; \<open>self\<close> and
  \<open>lastPitch\<close> are two objects.\<close>

definition makeAbsolute :: "'a Pitch_scheme \<Rightarrow> 'b Pitch_scheme \<Rightarrow> 'a Pitch_scheme" where
  "makeAbsolute self lastPitch =
     self\<lparr>octave := octave self + (octave lastPitch - (note self - note lastPitch + 3) div 7)\<rparr>"

definition makeRelative :: "'a Pitch_scheme \<Rightarrow> 'b Pitch_scheme \<Rightarrow> 'a Pitch_scheme" where
  "makeRelative self lastPitch =
     self\<lparr>octave := octave self - (octave lastPitch - (note self - note lastPitch + 3) div 7)\<rparr>"

text \<open>\<open>octave < 0 and ',' * -octave or "'" * octave\<close>: for a negative octave the first
  operand of \<open>or\<close> is a non-empty string and is the result.\<close>

definition octaveToString :: "int \<Rightarrow> string" where
  "octaveToString n =
     (if n < 0 then replicate (nat (- n)) (CHR '','') else replicate (nat n) (CHR 0x27))"

definition octaveToNum :: "string \<Rightarrow> int" where
  "octaveToNum s = int (count_list s (CHR 0x27)) - int (count_list s (CHR '',''))"

section \<open>The pitch codec\<close>

subsection \<open>Writer\<close>

record PitchWriter =
  wlanguage :: string
  wnames :: "string list"
  waccs :: "string list"
  wreplacements :: "(string \<times> string) list"

text \<open>The loop over the replacement pairs in \<open>PitchWriter.__call__\<close>; it leaves at the
  first pair that applies (\<open>break\<close>).\<close>

fun writer_replace :: "(string \<times> string) list \<Rightarrow> string \<Rightarrow> string" where
  "writer_replace [] pitch = pitch"
| "writer_replace ((s, r) # rest) pitch =
     (if startswith pitch s then r @ drop (length s) pitch
      else writer_replace rest pitch)"

definition PitchWriter_call :: "PitchWriter \<Rightarrow> int \<Rightarrow> rat \<Rightarrow> error + string" where
  "PitchWriter_call self n a =
     (case py_index (wnames self) n of
        Inl e \<Rightarrow> Inl e
      | Inr pitch \<Rightarrow>
          if a \<noteq> 0 then
            (case py_index (waccs self) (py_int (a * 4 + 4)) of
               Inl e \<Rightarrow> Inl e
             | Inr acc \<Rightarrow>
                 if acc = [] then Inl (PitchNameNotAvailable (wlanguage self))
                 else Inr (writer_replace (wreplacements self) (pitch @ acc)))
          else Inr (writer_replace (wreplacements self) pitch))"

text \<open>
  \<open>pitchWriter(language)\<close>: a writer built from the table entry, with its \<open>language\<close>
  attribute set; a language that is not a key raises \<open>KeyError\<close>.
\<close>

definition pitchWriter :: "string \<Rightarrow> error + PitchWriter" where
  "pitchWriter language =
     (case map_of pitchInfo language of
        None \<Rightarrow> Inl (KeyError language)
      | Some (ns, acs, repl) \<Rightarrow>
          Inr \<lparr>wlanguage = language, wnames = ns, waccs = acs, wreplacements = repl\<rparr>)"

text \<open>
  The module keeps the writers it has built in the dictionary \<open>_pitchWriters\<close>:
  a cached writer is returned as it is, a new one is stored.
\<close>

definition pitchWriter_cached ::
  "(string \<rightharpoonup> PitchWriter) \<Rightarrow> string \<Rightarrow> (error + PitchWriter) \<times> (string \<rightharpoonup> PitchWriter)" where
  "pitchWriter_cached cache language =
     (case cache language of
        Some res \<Rightarrow> (Inr res, cache)
      | None \<Rightarrow>
          (case pitchWriter language of
             Inl e \<Rightarrow> (Inl e, cache)
           | Inr res \<Rightarrow> (Inr res, cache(language \<mapsto> res))))"

subsection \<open>Reader\<close>

record PitchReader =
  rnames :: "string list"
  raccs :: "string list"
  rreplacements :: "(string \<times> string) list"

text \<open>The loop over the replacement pairs in \<open>PitchReader.__call__\<close>: every pair is
  tested, each against the text as the pairs before it left it.\<close>

fun reader_replace :: "(string \<times> string) list \<Rightarrow> string \<Rightarrow> string" where
  "reader_replace [] text = text"
| "reader_replace ((s, r) # rest) text =
     reader_replace rest (if startswith text r then s @ drop (length r) text else text)"

text \<open>
  The compiled pattern is \<open>(n1|...|n7)(a1|...|ak)?$\<close> with the non-empty accidentals,
  applied with \<open>match\<close>, so anchored at the start of the text. All names and suffixes of
  the table are plain letters, so every alternative matches literally. \<open>$\<close> holds at the
  end of the text and before a newline that ends it. The engine backtracks: it takes
  the note names in order; for each that is a prefix it takes the accidentals in order
  and accepts the first after which \<open>$\<close> holds, then tries the group left out.
\<close>

definition at_dollar :: "string \<Rightarrow> bool" where
  "at_dollar rest = (rest = [] \<or> rest = [CHR 0x0A])"

fun match_acc :: "string list \<Rightarrow> string \<Rightarrow> string option" where
  "match_acc [] rest = None"
| "match_acc (a # as) rest =
     (if startswith rest a \<and> at_dollar (drop (length a) rest) then Some a
      else match_acc as rest)"

fun match_names :: "string list \<Rightarrow> string list \<Rightarrow> string \<Rightarrow> (string \<times> string option) option" where
  "match_names [] alts text = None"
| "match_names (n # ns) alts text =
     (if startswith text n then
        (case match_acc alts (drop (length n) text) of
           Some a \<Rightarrow> Some (n, Some a)
         | None \<Rightarrow>
             if at_dollar (drop (length n) text) then Some (n, None)
             else match_names ns alts text)
      else match_names ns alts text)"

definition rx_match :: "PitchReader \<Rightarrow> string \<Rightarrow> (string \<times> string option) option" where
  "rx_match self text =
     match_names (rnames self) (filter (\<lambda>acc. acc \<noteq> []) (raccs self)) text"

text \<open>One pass of the loop \<open>for dummy in 1, 2\<close> up to its \<open>return\<close>.\<close>

definition read_match :: "PitchReader \<Rightarrow> string \<Rightarrow> (int \<times> rat) option" where
  "read_match self text =
     (case rx_match self text of
        None \<Rightarrow> None
      | Some (g1, g2) \<Rightarrow>
          Some (int (index_of (rnames self) g1),
                (case g2 of
                   Some g \<Rightarrow> Fract (int (index_of (raccs self) g) - 4) 4
                 | None \<Rightarrow> 0)))"

text \<open>\<open>PitchReader.__call__\<close>; \<open>None\<close> is the result \<open>False\<close>.\<close>

definition PitchReader_call :: "PitchReader \<Rightarrow> string \<Rightarrow> (int \<times> rat) option" where
  "PitchReader_call self text0 =
     (let text1 = reader_replace (rreplacements self) text0 in
      case read_match self text1 of
        Some res \<Rightarrow> Some res
      | None \<Rightarrow>
          (let text2 = py_replace ''sharp'' ''s'' (py_replace ''flat'' ''f'' text1) in
           case read_match self text2 of
             Some res \<Rightarrow> Some res
           | None \<Rightarrow> None))"

definition pitchReader :: "string \<Rightarrow> error + PitchReader" where
  "pitchReader language =
     (case map_of pitchInfo language of
        None \<Rightarrow> Inl (KeyError language)
      | Some (ns, acs, repl) \<Rightarrow>
          Inr \<lparr>rnames = ns, raccs = acs, rreplacements = repl\<rparr>)"

definition pitchReader_cached ::
  "(string \<rightharpoonup> PitchReader) \<Rightarrow> string \<Rightarrow> (error + PitchReader) \<times> (string \<rightharpoonup> PitchReader)" where
  "pitchReader_cached cache language =
     (case cache language of
        Some res \<Rightarrow> (Inr res, cache)
      | None \<Rightarrow>
          (case pitchReader language of
             Inl e \<Rightarrow> (Inl e, cache)
           | Inr res \<Rightarrow> (Inr res, cache(language \<mapsto> res))))"

text \<open>Decoding and encoding in a language given by name.\<close>

definition read_in :: "string \<Rightarrow> string \<Rightarrow> error + (int \<times> rat) option" where
  "read_in language text =
     (case pitchReader language of
        Inl e \<Rightarrow> Inl e
      | Inr rd \<Rightarrow> Inr (PitchReader_call rd text))"

definition write_in :: "string \<Rightarrow> int \<Rightarrow> rat \<Rightarrow> error + string" where
  "write_in language n a =
     (case pitchWriter language of
        Inl e \<Rightarrow> Inl e
      | Inr wr \<Rightarrow> PitchWriter_call wr n a)"

section \<open>Tokens and the document\<close>

text \<open>
  Modelled from the spec: the lexer (\<open>ly.lex\<close>) is not part of the module. A token
  exposes its text, its start offset, its end offset and a classification that answers
  the tests the scanner makes: note, octave mark, octave check, accidental marker,
  whitespace, keyword; everything else is \<open>Other\<close>.
\<close>

datatype tclass = Note | Octave | OctaveCheck | Accidental | Space | Keyword | Other

record token =
  tclass :: tclass
  ttext :: string
  tpos :: int
  tend :: int

text \<open>\<open>slice(start, stop)\<close>.\<close>

datatype pyslice = Slice int int

text \<open>
  Modelled from the spec: the document is a sink that is asked to replace or to delete
  the text in a range. It is the list of the requests it has received, in order:
  \<open>document[key] = s\<close> and \<open>del document[key]\<close>; the key is a slice, or \<open>None\<close> when
  the attribute passed as key holds \<open>None\<close>.
\<close>

datatype edit = SetItem "pyslice option" string | DelItem "pyslice option"

type_synonym document = "edit list"

section \<open>The scanner\<close>

text \<open>A \<open>Pitch\<close> with the attributes \<open>PitchIterator.pitches\<close> adds to it.\<close>

record ScannedPitch = Pitch +
  noteToken :: token
  origOctave :: int
  octaveSlice :: pyslice
  octaveCheck :: "int option"
  origOctaveCheck :: "int option"
  octaveCheckSlice :: "pyslice option"

text \<open>
  What the generators yield: a token of the source, a \<open>LanguageName(lang, pos)\<close>
  (a token class of this module, which the lexer never produces), or a pitch.
\<close>

datatype yielded = Token token | LanguageName string int | PitchObj ScannedPitch

text \<open>
  The iterator object: the rest of its single-pass source, and the \<open>language\<close>
  attribute, which does not exist (\<open>None\<close>) before \<open>setLanguage\<close> has set it.
\<close>

record PitchIterator =
  source :: "token list"
  language :: "string option"

definition setLanguage :: "string \<Rightarrow> PitchIterator \<Rightarrow> bool \<times> PitchIterator" where
  "setLanguage lang self =
     (if lang \<in> set (map fst pitchInfo) then (True, self\<lparr>language := Some lang\<rparr>)
      else (False, self))"

definition PitchIterator_init :: "token list \<Rightarrow> PitchIterator" where
  "PitchIterator_init src = snd (setLanguage ''nederlands'' \<lparr>source = src, language = None\<rparr>)"

text \<open>
  The generator \<open>tokens\<close> is suspended at one of its \<open>yield\<close>s; the next token is then
  taken by the outer \<open>for\<close> (at the start, after a token that is no directive, after
  the \<open>break\<close>) or by the inner \<open>for\<close> (after \<open>\include\<close> or \<open>\language\<close>, and
  after a token yielded inside the inner loop). Once the source has ended the
  generator is finished and does not ask the source again.
\<close>

datatype tokens_pc = AtOuterLoop | AtInnerLoop | Finished

definition is_directive :: "token \<Rightarrow> bool" where
  "is_directive t =
     (tclass t = Keyword \<and>
      (ttext t = [CHR 0x5C] @ ''include'' \<or> ttext t = [CHR 0x5C] @ ''language''))"

text \<open>\<open>t[:-3] if t.endswith('.ly') else t[:]\<close>\<close>

definition language_of_token :: "string \<Rightarrow> string" where
  "language_of_token t = (if endswith t ''.ly'' then take (length t - 3) t else t)"

text \<open>
  One \<open>next\<close> on the generator: the token yielded (\<open>None\<close> when the generator ends),
  where the generator is suspended afterwards, and the iterator object afterwards.
  A candidate that is no language is not yielded: the inner loop is left and the outer
  loop takes the next token. When the source ends inside the inner loop, the outer
  loop finds it ended as well.
\<close>

function tokens_next ::
  "tokens_pc \<Rightarrow> PitchIterator \<Rightarrow> yielded option \<times> tokens_pc \<times> PitchIterator" where
  "tokens_next Finished self = (None, Finished, self)"
| "tokens_next AtOuterLoop self =
     (case source self of
        [] \<Rightarrow> (None, Finished, self)
      | t # rest \<Rightarrow>
          (Some (Token t),
           if is_directive t then AtInnerLoop else AtOuterLoop,
           self\<lparr>source := rest\<rparr>))"
| "tokens_next AtInnerLoop self =
     (case source self of
        [] \<Rightarrow> (None, Finished, self)
      | t # rest \<Rightarrow>
          if tclass t \<noteq> Space \<and> ttext t \<noteq> [CHR 0x22] then
            (let lang = language_of_token (ttext t) in
             case setLanguage lang (self\<lparr>source := rest\<rparr>) of
               (True, self') \<Rightarrow> (Some (LanguageName lang (tpos t)), AtOuterLoop, self')
             | (False, self') \<Rightarrow> tokens_next AtOuterLoop self')
          else (Some (Token t), AtInnerLoop, self\<lparr>source := rest\<rparr>))"
  by pat_completeness auto
termination
  by (relation "measure (\<lambda>(pc, self). if pc = AtInnerLoop then 1 else 0)") auto

text \<open>\<open>PitchIterator.read\<close>: the reader of the current language, applied to the token.\<close>

definition read :: "PitchIterator \<Rightarrow> string \<Rightarrow> error + (int \<times> rat) option" where
  "read self tok =
     (case language self of
        None \<Rightarrow> Inl AttributeError
      | Some lang \<Rightarrow> read_in lang tok)"

text \<open>
  The inner loop of \<open>pitches\<close>, \<open>for t in tokens\<close>, after a note has been read: the
  pitch with the octave and octave check found, the last value bound to \<open>t\<close> (\<open>None\<close>
  when the generator had nothing left) and the generator afterwards.
\<close>

function collect ::
  "tokens_pc \<Rightarrow> PitchIterator \<Rightarrow> ScannedPitch \<Rightarrow> yielded option \<Rightarrow>
   ScannedPitch \<times> yielded option \<times> tokens_pc \<times> PitchIterator" where
  "collect pc self p t =
     (case tokens_next pc self of
        (None, pc', self') \<Rightarrow> (p, t, pc', self')
      | (Some (Token tk), pc', self') \<Rightarrow>
          if tclass tk = Octave then
            collect pc' self'
              (p\<lparr>octave := octaveToNum (ttext tk), origOctave := octaveToNum (ttext tk),
                 octaveSlice := Slice (tpos tk) (tend tk)\<rparr>)
              (Some (Token tk))
          else if tclass tk = OctaveCheck then
            (p\<lparr>octaveCheck := Some (octaveToNum (ttext tk)),
               origOctaveCheck := Some (octaveToNum (ttext tk)),
               octaveCheckSlice := Some (Slice (tpos tk) (tend tk))\<rparr>,
             Some (Token tk), pc', self')
          else if \<not> (tclass tk = Space \<or> tclass tk = Accidental) then
            (p, Some (Token tk), pc', self')
          else collect pc' self' p (Some (Token tk))
      | (Some y, pc', self') \<Rightarrow> (p, Some y, pc', self'))"
  by pat_completeness auto
termination
proof -
  have dec: "length (source self') < length (source self)"
    if "tokens_next pc self = (Some y, pc', self')" for pc self y pc' self'
    using that
    by (cases pc)
       (auto simp: setLanguage_def Let_def split: list.splits if_splits)
  show ?thesis
    by (relation "measure (\<lambda>(pc, self, p, t). length (source self))")
       (auto dest: dec [OF sym])
qed

declare collect.simps [simp del]

text \<open>
  What a generator has yielded when it ends, and the exception that ended it, if one
  did.
\<close>

type_synonym 'a generated = "'a list \<times> error option"

definition yield :: "'a \<Rightarrow> 'a generated \<Rightarrow> 'a generated" where
  "yield x rest = (x # fst rest, snd rest)"

text \<open>The new \<open>Pitch(*p)\<close> with the attributes set before the inner loop.\<close>

definition new_pitch :: "int \<times> rat \<Rightarrow> token \<Rightarrow> ScannedPitch" where
  "new_pitch p t =
     \<lparr>note = fst p, alter = snd p, octave = 0,
      noteToken = t, origOctave = 0, octaveSlice = Slice (tend t) (tend t),
      octaveCheck = None, origOctaveCheck = None, octaveCheckSlice = None\<rparr>"

text \<open>
  The body of the generator \<open>pitches\<close>. With \<open>None\<close> it is at \<open>for t in tokens\<close>; with
  \<open>Some t\<close> it is at \<open>while isinstance(t, ly.lex.lilypond.Note)\<close> with that \<open>t\<close>. The
  \<open>else\<close> of the \<open>while\<close> runs when its condition is false; a \<open>break\<close> inside the
  \<open>while\<close> goes past it, to the next round of the \<open>for\<close>.
\<close>

function pitches_loop ::
  "yielded option \<Rightarrow> tokens_pc \<Rightarrow> PitchIterator \<Rightarrow> yielded generated" where
  "pitches_loop None pc self =
     (case tokens_next pc self of
        (None, pc', self') \<Rightarrow> ([], None)
      | (Some t, pc', self') \<Rightarrow> pitches_loop (Some t) pc' self')"
| "pitches_loop (Some (Token tk)) pc self =
     (if tclass tk = Note then
        (case read self (ttext tk) of
           Inl e \<Rightarrow> ([], Some e)
         | Inr None \<Rightarrow> pitches_loop None pc self
         | Inr (Some p) \<Rightarrow>
             (case collect pc self (new_pitch p tk) None of
                (p', t', pc', self') \<Rightarrow>
                  yield (PitchObj p') (pitches_loop t' pc' self')))
      else yield (Token tk) (pitches_loop None pc self))"
| "pitches_loop (Some (LanguageName l k)) pc self =
     yield (LanguageName l k) (pitches_loop None pc self)"
| "pitches_loop (Some (PitchObj q)) pc self =
     yield (PitchObj q) (pitches_loop None pc self)"
  by pat_completeness auto
termination
proof -
  have dec: "length (source self') < length (source self)"
    if "tokens_next pc self = (Some y, pc', self')" for pc self y pc' self'
    using that
    by (cases pc)
       (auto simp: setLanguage_def Let_def split: list.splits if_splits)
  have stop: "length (source self') \<le> length (source self)"
    if "tokens_next pc self = (None, pc', self')" for pc self pc' self'
    using that
    by (cases pc)
       (auto simp: setLanguage_def Let_def split: list.splits if_splits)
  have col: "(t' = t \<and> length (source self') \<le> length (source self)) \<or>
             (t' \<noteq> None \<and> length (source self') < length (source self))"
    if "collect pc self p t = (p', t', pc', self')" for pc self p t p' t' pc' self'
    using that
  proof (induction pc self p t rule: collect.induct)
    case (1 pc self p t)
    obtain y pc1 self1 where r: "tokens_next pc self = (y, pc1, self1)"
      by (cases "tokens_next pc self") auto
    show ?case
    proof (cases y)
      case None
      with "1.prems" r stop [of pc self pc1 self1] show ?thesis
        by (subst (asm) collect.simps) simp
    next
      case (Some z)
      have lt: "length (source self1) < length (source self)"
        using Some r dec by blast
      show ?thesis
      proof (cases z)
        case (Token tk)
        consider (oct) "tclass tk = Octave"
          | (chk) "tclass tk \<noteq> Octave" "tclass tk = OctaveCheck"
          | (brk) "tclass tk \<noteq> Octave" "tclass tk \<noteq> OctaveCheck"
                  "\<not> (tclass tk = Space \<or> tclass tk = Accidental)"
          | (skip) "tclass tk \<noteq> Octave" "tclass tk \<noteq> OctaveCheck"
                   "tclass tk = Space \<or> tclass tk = Accidental"
          by blast
        then show ?thesis
        proof cases
          case oct
          let ?q = "p\<lparr>octave := octaveToNum (ttext tk), origOctave := octaveToNum (ttext tk),
                     octaveSlice := Slice (tpos tk) (tend tk)\<rparr>"
          have "collect pc1 self1 ?q (Some (Token tk)) = (p', t', pc', self')"
            using "1.prems" Some r Token oct by (subst (asm) collect.simps) simp
          with "1.IH"(1) [OF r [symmetric] Some Token refl oct] lt
          show ?thesis by auto
        next
          case chk
          with "1.prems" Some r Token lt show ?thesis
            by (subst (asm) collect.simps) auto
        next
          case brk
          with "1.prems" Some r Token lt show ?thesis
            by (subst (asm) collect.simps) auto
        next
          case skip
          have "collect pc1 self1 p (Some (Token tk)) = (p', t', pc', self')"
            using "1.prems" Some r Token skip by (subst (asm) collect.simps) auto
          with "1.IH"(2) [OF r [symmetric] Some Token refl skip(1) skip(2)] lt skip(3)
          show ?thesis by auto
        qed
      next
        case (LanguageName l k)
        with "1.prems" Some r lt show ?thesis
          by (subst (asm) collect.simps) auto
      next
        case (PitchObj q)
        with "1.prems" Some r lt show ?thesis
          by (subst (asm) collect.simps) auto
      qed
    qed
  qed
  show ?thesis
  proof (relation "measure (\<lambda>(t, pc, self).
                     2 * length (source self) + (case t of None \<Rightarrow> 0 | Some _ \<Rightarrow> 1))",
         goal_cases)
    case 1
    show ?case by simp
  next
    case (2 pc self x y x2 xa ya)
    then have "tokens_next pc self = (Some x2, xa, ya)"
      by simp
    from dec [OF this] show ?case
      by simp
  next
    case (3 tk pc self b)
    show ?case by simp
  next
    case (4 tk pc self b x2 x y xa ya xb yb)
    then have "collect pc self (new_pitch x2 tk) None = (x, xa, xb, yb)"
      by simp
    from col [OF this] show ?case
      by (auto split: option.splits)
  next
    case 5
    show ?case by simp
  next
    case 6
    show ?case by simp
  next
    case 7
    show ?case by simp
  qed
qed

declare pitches_loop.simps [simp del]

text \<open>\<open>PitchIterator.pitches\<close>: a new \<open>tokens\<close> generator, at its start.\<close>

definition pitches :: "PitchIterator \<Rightarrow> yielded generated" where
  "pitches self = pitches_loop None AtOuterLoop self"

text \<open>The generator \<open>tokens\<close> asked \<open>n\<close> times: what it yielded and where it is.\<close>

fun tokens_take ::
  "nat \<Rightarrow> tokens_pc \<Rightarrow> PitchIterator \<Rightarrow> yielded list \<times> tokens_pc \<times> PitchIterator" where
  "tokens_take 0 pc self = ([], pc, self)"
| "tokens_take (Suc n) pc self =
     (case tokens_next pc self of
        (None, pc', self') \<Rightarrow> ([], pc', self')
      | (Some t, pc', self') \<Rightarrow>
          (case tokens_take n pc' self' of
             (ts, pc'', self'') \<Rightarrow> (t # ts, pc'', self'')))"

section \<open>Write-back\<close>

text \<open>\<open>language or self.language\<close>: the argument when it is given and not empty.\<close>

definition language_or :: "string option \<Rightarrow> PitchIterator \<Rightarrow> error + string" where
  "language_or lang self =
     (if lang \<noteq> None \<and> lang \<noteq> Some [] then Inr (the lang)
      else (case language self of None \<Rightarrow> Inl AttributeError | Some l \<Rightarrow> Inr l))"

text \<open>
  \<open>PitchIterator.write\<close>: the exception raised, if any, and the document afterwards.
\<close>

definition PitchIterator_write ::
  "PitchIterator \<Rightarrow> ScannedPitch \<Rightarrow> document \<Rightarrow> string option \<Rightarrow> error option \<times> document" where
  "PitchIterator_write self pitch doc lang =
     (case language_or lang self of
        Inl e \<Rightarrow> (Some e, doc)
      | Inr l \<Rightarrow>
          (case pitchWriter l of
             Inl e \<Rightarrow> (Some e, doc)
           | Inr pwriter \<Rightarrow>
               (case PitchWriter_call pwriter (note pitch) (alter pitch) of
                  Inl e \<Rightarrow> (Some e, doc)
                | Inr n \<Rightarrow>
                    (let doc1 =
                           (if n \<noteq> ttext (noteToken pitch)
                            then doc @ [SetItem (Some (Slice (tpos (noteToken pitch))
                                                              (tend (noteToken pitch)))) n]
                            else doc);
                         doc2 =
                           (if octave pitch \<noteq> origOctave pitch
                            then doc1 @ [SetItem (Some (octaveSlice pitch))
                                                 (octaveToString (octave pitch))]
                            else doc1);
                         doc3 =
                           (if origOctaveCheck pitch \<noteq> None then
                              (case octaveCheck pitch of
                                 None \<Rightarrow> doc2 @ [DelItem (octaveCheckSlice pitch)]
                               | Some c \<Rightarrow>
                                   doc2 @ [SetItem (octaveCheckSlice pitch)
                                                   (CHR ''='' # octaveToString c)])
                            else doc2)
                     in (None, doc3)))))"

section \<open>The replacement rules as the specification words them\<close>

text \<open>
  The specification says of both directions: the pairs are checked in order, the first
  pair whose prefix matches wins, and at most one substitution is made. As functions:
  the first pair of the list whose prefix the text starts with, if any, is applied to
  the text as it was given. A pair \<open>(s, r)\<close> holds the canonical prefix \<open>s\<close> and the
  alternate prefix \<open>r\<close>; reading puts \<open>s\<close> for \<open>r\<close>, writing puts \<open>r\<close> for \<open>s\<close>.
\<close>

definition first_match_read :: "(string \<times> string) list \<Rightarrow> string \<Rightarrow> string" where
  "first_match_read repl text =
     (case find (\<lambda>(s, r). startswith text r) repl of
        None \<Rightarrow> text
      | Some (s, r) \<Rightarrow> s @ drop (length r) text)"

definition first_match_write :: "(string \<times> string) list \<Rightarrow> string \<Rightarrow> string" where
  "first_match_write repl pitch =
     (case find (\<lambda>(s, r). startswith pitch s) repl of
        None \<Rightarrow> pitch
      | Some (s, r) \<Rightarrow> r @ drop (length s) pitch)"

text \<open>
  The pairs whose assignment is executed by the loops of \<open>PitchReader.__call__\<close> and
  \<open>PitchWriter.__call__\<close>, in the order in which that happens.
\<close>

fun reader_applied :: "(string \<times> string) list \<Rightarrow> string \<Rightarrow> (string \<times> string) list" where
  "reader_applied [] text = []"
| "reader_applied ((s, r) # rest) text =
     (if startswith text r then (s, r) # reader_applied rest (s @ drop (length r) text)
      else reader_applied rest text)"

fun writer_applied :: "(string \<times> string) list \<Rightarrow> string \<Rightarrow> (string \<times> string) list" where
  "writer_applied [] pitch = []"
| "writer_applied ((s, r) # rest) pitch =
     (if startswith pitch s then [(s, r)] else writer_applied rest pitch)"

section \<open>The scanner that decodes in one language\<close>

text \<open>
  To say that every note token is decoded with the table of one language: the body of
  \<open>pitches\<close> once more, with one difference, that a note token is read by the reader of
  the language \<open>L\<close> given, and not by the reader of the iterator's \<open>language\<close>
  attribute.
\<close>

function pitches_loop_in ::
  "string \<Rightarrow> yielded option \<Rightarrow> tokens_pc \<Rightarrow> PitchIterator \<Rightarrow> yielded generated" where
  "pitches_loop_in L None pc self =
     (case tokens_next pc self of
        (None, pc', self') \<Rightarrow> ([], None)
      | (Some t, pc', self') \<Rightarrow> pitches_loop_in L (Some t) pc' self')"
| "pitches_loop_in L (Some (Token tk)) pc self =
     (if tclass tk = Note then
        (case read_in L (ttext tk) of
           Inl e \<Rightarrow> ([], Some e)
         | Inr None \<Rightarrow> pitches_loop_in L None pc self
         | Inr (Some p) \<Rightarrow>
             (case collect pc self (new_pitch p tk) None of
                (p', t', pc', self') \<Rightarrow>
                  yield (PitchObj p') (pitches_loop_in L t' pc' self')))
      else yield (Token tk) (pitches_loop_in L None pc self))"
| "pitches_loop_in L (Some (LanguageName l k)) pc self =
     yield (LanguageName l k) (pitches_loop_in L None pc self)"
| "pitches_loop_in L (Some (PitchObj q)) pc self =
     yield (PitchObj q) (pitches_loop_in L None pc self)"
  by pat_completeness auto
termination
proof -
  have dec: "length (source self') < length (source self)"
    if "tokens_next pc self = (Some y, pc', self')" for pc self y pc' self'
    using that
    by (cases pc)
       (auto simp: setLanguage_def Let_def split: list.splits if_splits)
  have stop: "length (source self') \<le> length (source self)"
    if "tokens_next pc self = (None, pc', self')" for pc self pc' self'
    using that
    by (cases pc)
       (auto simp: setLanguage_def Let_def split: list.splits if_splits)
  have col: "(t' = t \<and> length (source self') \<le> length (source self)) \<or>
             (t' \<noteq> None \<and> length (source self') < length (source self))"
    if "collect pc self p t = (p', t', pc', self')" for pc self p t p' t' pc' self'
    using that
  proof (induction pc self p t rule: collect.induct)
    case (1 pc self p t)
    obtain y pc1 self1 where r: "tokens_next pc self = (y, pc1, self1)"
      by (cases "tokens_next pc self") auto
    show ?case
    proof (cases y)
      case None
      with "1.prems" r stop [of pc self pc1 self1] show ?thesis
        by (subst (asm) collect.simps) simp
    next
      case (Some z)
      have lt: "length (source self1) < length (source self)"
        using Some r dec by blast
      show ?thesis
      proof (cases z)
        case (Token tk)
        consider (oct) "tclass tk = Octave"
          | (chk) "tclass tk \<noteq> Octave" "tclass tk = OctaveCheck"
          | (brk) "tclass tk \<noteq> Octave" "tclass tk \<noteq> OctaveCheck"
                  "\<not> (tclass tk = Space \<or> tclass tk = Accidental)"
          | (skip) "tclass tk \<noteq> Octave" "tclass tk \<noteq> OctaveCheck"
                   "tclass tk = Space \<or> tclass tk = Accidental"
          by blast
        then show ?thesis
        proof cases
          case oct
          let ?q = "p\<lparr>octave := octaveToNum (ttext tk), origOctave := octaveToNum (ttext tk),
                     octaveSlice := Slice (tpos tk) (tend tk)\<rparr>"
          have "collect pc1 self1 ?q (Some (Token tk)) = (p', t', pc', self')"
            using "1.prems" Some r Token oct by (subst (asm) collect.simps) simp
          with "1.IH"(1) [OF r [symmetric] Some Token refl oct] lt
          show ?thesis by auto
        next
          case chk
          with "1.prems" Some r Token lt show ?thesis
            by (subst (asm) collect.simps) auto
        next
          case brk
          with "1.prems" Some r Token lt show ?thesis
            by (subst (asm) collect.simps) auto
        next
          case skip
          have "collect pc1 self1 p (Some (Token tk)) = (p', t', pc', self')"
            using "1.prems" Some r Token skip by (subst (asm) collect.simps) auto
          with "1.IH"(2) [OF r [symmetric] Some Token refl skip(1) skip(2)] lt skip(3)
          show ?thesis by auto
        qed
      next
        case (LanguageName l k)
        with "1.prems" Some r lt show ?thesis
          by (subst (asm) collect.simps) auto
      next
        case (PitchObj q)
        with "1.prems" Some r lt show ?thesis
          by (subst (asm) collect.simps) auto
      qed
    qed
  qed
  show ?thesis
  proof (relation "measure (\<lambda>(L, t, pc, self).
                     2 * length (source self) + (case t of None \<Rightarrow> 0 | Some _ \<Rightarrow> 1))",
         goal_cases)
    case 1
    show ?case by simp
  next
    case (2 L pc self x y x2 xa ya)
    then have "tokens_next pc self = (Some x2, xa, ya)"
      by simp
    from dec [OF this] show ?case
      by simp
  next
    case 3
    show ?case by simp
  next
    case (4 L tk pc self b x2 x y xa ya xb yb)
    then have "collect pc self (new_pitch x2 tk) None = (x, xa, xb, yb)"
      by simp
    from col [OF this] show ?case
      by (auto split: option.splits)
  next
    case 5
    show ?case by simp
  next
    case 6
    show ?case by simp
  next
    case 7
    show ?case by simp
  qed
qed

declare pitches_loop_in.simps [simp del]

definition pitches_in :: "string \<Rightarrow> PitchIterator \<Rightarrow> yielded generated" where
  "pitches_in L self = pitches_loop_in L None AtOuterLoop self"

text \<open>
  What the scanner has yielded before the first \<open>LanguageName\<close>, the token that
  \<open>tokens\<close> yields when, and only when, a directive has set the language.
\<close>

fun is_LanguageName :: "yielded \<Rightarrow> bool" where
  "is_LanguageName (LanguageName l k) = True"
| "is_LanguageName (Token t) = False"
| "is_LanguageName (PitchObj p) = False"

definition before_directive :: "yielded generated \<Rightarrow> yielded list" where
  "before_directive g = takeWhile (\<lambda>y. \<not> is_LanguageName y) (fst g)"

section \<open>Facts about the table and the primitives\<close>

lemma in_languages_iff: "L \<in> set languages \<longleftrightarrow> map_of pitchInfo L \<noteq> None"
  by (simp add: languages_def map_of_eq_None_iff)

lemma table_lengths:
  "map_of pitchInfo L = Some (ns, acs, repl) \<Longrightarrow> length ns = 7 \<and> length acs = 9"
  by (auto simp: pitchInfo_def nederlands_def english_def deutsch_def svenska_def
        italiano_def espanol_def portugues_def vlaams_def split: if_splits)

lemma py_index_error: "py_index xs i = Inl e \<Longrightarrow> e = IndexError"
  by (auto simp: py_index_def split: if_splits)

lemma py_index_in_range:
  "0 \<le> i \<Longrightarrow> i < int (length xs) \<Longrightarrow> py_index xs i = Inr (xs ! nat i)"
  by (simp add: py_index_def)

lemma floor_div7: "\<lfloor>rat_of_int k / 7\<rfloor> = k div 7"
  using floor_divide_of_int_eq [of k 7, where ?'a = rat] by simp

text \<open>
  The caches are transparent: as long as every cached object is the one the
  constructor builds for its key, which holds for the empty caches the module starts
  with and is kept by every call, the cached functions return what \<open>pitchWriter\<close> and
  \<open>pitchReader\<close> return.
\<close>

lemma pitchWriter_cached_eq:
  assumes "\<forall>l w. cache l = Some w \<longrightarrow> pitchWriter l = Inr w"
  shows "fst (pitchWriter_cached cache lang) = pitchWriter lang"
    and "\<forall>l w. snd (pitchWriter_cached cache lang) l = Some w \<longrightarrow> pitchWriter l = Inr w"
  using assms by (auto simp: pitchWriter_cached_def split: option.splits sum.splits)

lemma pitchReader_cached_eq:
  assumes "\<forall>l r. cache l = Some r \<longrightarrow> pitchReader l = Inr r"
  shows "fst (pitchReader_cached cache lang) = pitchReader lang"
    and "\<forall>l r. snd (pitchReader_cached cache lang) l = Some r \<longrightarrow> pitchReader l = Inr r"
  using assms by (auto simp: pitchReader_cached_def split: option.splits sum.splits)

lemma PitchWriter_call_unavailable:
  assumes "py_index (wnames w) n = Inr nm" and "a \<noteq> 0"
  shows "PitchWriter_call w n a = Inl (PitchNameNotAvailable (wlanguage w)) \<longleftrightarrow>
         py_index (waccs w) (py_int (a * 4 + 4)) = Inr []"
  using assms by (auto simp: PitchWriter_call_def split: sum.splits dest: py_index_error)

section \<open>The codec\<close>

text \<open>
  C1, as stated: in \<open>nederlands\<close> the spelling \<open>es\<close> would decode to note 5 (\<open>a\<close>) with
  alter \<open>-1/2\<close>. It does not.
\<close>

theorem es_is_not_a_flat:
  "read_in ''nederlands'' ''es'' \<noteq> Inr (Some (5, - (1 / 2)))"
  by code_simp

text \<open>
  C1, amended: in \<open>nederlands\<close> the spelling \<open>es\<close> decodes to note 2 (\<open>e\<close>) with alter
  \<open>-1/2\<close>. The reader first puts \<open>ees\<close> for the prefix \<open>es\<close>, and the pattern then finds
  the name \<open>e\<close> and the suffix \<open>es\<close>, which is entry 2 of the accidentals.
\<close>

theorem es_reads_as_e_flat:
  "read_in ''nederlands'' ''es'' = Inr (Some (2, - (1 / 2)))"
  by code_simp

text \<open>
  C6: for a registered language \<open>L\<close>, a note in \<open>0..6\<close> and an alter other than 0,
  encoding raises \<open>PitchNameNotAvailable\<close> with the language \<open>L\<close> exactly when the entry
  of the accidentals at index \<open>int(alter * 4 + 4)\<close> is the empty string. With alter 0
  the accidentals are not looked at (any other list in their place gives the same
  result) and encoding succeeds. Note 0 with alter \<open>1/4\<close> in \<open>espanol\<close> raises
  \<open>PitchNameNotAvailable\<close> with \<open>espanol\<close>.
\<close>

theorem writer_unavailable_iff_empty_suffix:
  assumes "L \<in> set languages" and "0 \<le> n" and "n \<le> 6"
  shows "(\<exists>w. pitchWriter L = Inr w \<and>
            (\<forall>a. a \<noteq> 0 \<longrightarrow>
               (write_in L n a = Inl (PitchNameNotAvailable L) \<longleftrightarrow>
                py_index (waccs w) (py_int (a * 4 + 4)) = Inr [])) \<and>
            (\<forall>acs. PitchWriter_call (w\<lparr>waccs := acs\<rparr>) n 0 = PitchWriter_call w n 0))
         \<and> (\<exists>s. write_in L n 0 = Inr s)
         \<and> write_in ''espanol'' 0 (1 / 4) = Inl (PitchNameNotAvailable ''espanol'')"
proof -
  from assms(1) obtain ns acs repl where m: "map_of pitchInfo L = Some (ns, acs, repl)"
    by (auto simp: in_languages_iff)
  let ?w = "\<lparr>wlanguage = L, wnames = ns, waccs = acs, wreplacements = repl\<rparr>"
  have w: "pitchWriter L = Inr ?w"
    by (simp add: pitchWriter_def m)
  have nm: "py_index (wnames ?w) n = Inr (ns ! nat n)"
    using table_lengths [OF m] assms(2,3) by (simp add: py_index_in_range)
  have a: "write_in L n a = Inl (PitchNameNotAvailable L) \<longleftrightarrow>
           py_index (waccs ?w) (py_int (a * 4 + 4)) = Inr []" if "a \<noteq> 0" for a
    using PitchWriter_call_unavailable [OF nm that] by (simp add: write_in_def w)
  have b: "PitchWriter_call (?w\<lparr>waccs := acs'\<rparr>) n 0 = PitchWriter_call ?w n 0" for acs'
    by (simp add: PitchWriter_call_def split: sum.splits)
  have c: "\<exists>s. write_in L n 0 = Inr s"
    using nm by (simp add: write_in_def w PitchWriter_call_def)
  have d: "write_in ''espanol'' 0 (1 / 4) = Inl (PitchNameNotAvailable ''espanol'')"
    by code_simp
  from w a b c d show ?thesis by blast
qed

theorem writer_unavailable_iff_empty_suffix_witness:
  "''vlaams'' \<in> set languages \<and> (0::int) \<le> 3 \<and> (3::int) \<le> 6
   \<and> (\<exists>w. pitchWriter ''vlaams'' = Inr w \<and>
            (\<forall>a. a \<noteq> 0 \<longrightarrow>
               (write_in ''vlaams'' 3 a = Inl (PitchNameNotAvailable ''vlaams'') \<longleftrightarrow>
                py_index (waccs w) (py_int (a * 4 + 4)) = Inr [])))
   \<and> write_in ''vlaams'' 3 (3 / 4) = Inl (PitchNameNotAvailable ''vlaams'')
   \<and> write_in ''vlaams'' 3 (1 / 2) = Inr ''fak''
   \<and> write_in ''vlaams'' 3 0 = Inr ''fa''"
proof -
  have 1: "''vlaams'' \<in> set languages" by code_simp
  have 2: "write_in ''vlaams'' 3 (3 / 4) = Inl (PitchNameNotAvailable ''vlaams'')" by code_simp
  have 3: "write_in ''vlaams'' 3 (1 / 2) = Inr ''fak''" by code_simp
  have 4: "write_in ''vlaams'' 3 0 = Inr ''fa''" by code_simp
  from writer_unavailable_iff_empty_suffix [OF 1, of 3] 1 2 3 4 show ?thesis by auto
qed

subsection \<open>Round trip\<close>

lemma roundtrip_table:
  "\<forall>L \<in> set languages. \<forall>n \<in> set [0..6]. \<forall>k \<in> set [-4..4].
   (case pitchWriter L of Inl e \<Rightarrow> False | Inr w \<Rightarrow>
      (waccs w ! nat (k + 4) \<noteq> [] \<or> k = 0) \<longrightarrow>
      (case write_in L n (Fract k 4) of Inl e \<Rightarrow> False
       | Inr s \<Rightarrow> read_in L s = Inr (Some (n, Fract k 4))))"
  by code_simp

lemma quarter_multiple:
  assumes "- 1 \<le> a" and "a \<le> 1" and "a * 4 \<in> \<int>"
  obtains k :: int where "a = Fract k 4" and "- 4 \<le> k" and "k \<le> 4"
proof -
  from assms(3) obtain k :: int where k: "a * 4 = of_int k"
    by (auto elim: Ints_cases)
  then have a: "a = of_int k / 4" by simp
  then have "a = Fract k 4" by (simp add: Fract_of_int_quotient)
  moreover have "- 4 \<le> k" "k \<le> 4"
    using assms(1,2) a by (auto simp: field_simps)
  ultimately show ?thesis using that by blast
qed

lemma py_int_quarter: "py_int (Fract k 4 * 4 + 4) = k + 4"
proof -
  have "Fract k 4 * 4 + 4 = rat_of_int (k + 4)"
    by (simp add: Fract_of_int_quotient)
  then show ?thesis
    by (simp only: py_int_def of_int_0_le_iff floor_of_int ceiling_of_int if_cancel)
qed

text \<open>
  C2: for every registered language, every note in \<open>0..6\<close> and every alter that is a
  multiple of \<open>1/4\<close> in \<open>[-1, 1]\<close>, if the alter is 0 or the entry of the accidentals at
  index \<open>alter * 4 + 4\<close> is not empty, then encoding succeeds and decoding the spelling
  gives back the note and the alter.
\<close>

theorem decode_encode_roundtrip:
  assumes "L \<in> set languages" and "0 \<le> n" and "n \<le> 6"
    and "- 1 \<le> a" and "a \<le> 1" and "a * 4 \<in> \<int>"
    and "pitchWriter L = Inr w"
    and "a = 0 \<or> (\<exists>acc. py_index (waccs w) (py_int (a * 4 + 4)) = Inr acc \<and> acc \<noteq> [])"
  shows "\<exists>s. write_in L n a = Inr s \<and> read_in L s = Inr (Some (n, a))"
proof -
  from assms(4,5,6) obtain k where k: "a = Fract k 4" "- 4 \<le> k" "k \<le> 4"
    by (rule quarter_multiple)
  from assms(1) obtain ns acs repl where m: "map_of pitchInfo L = Some (ns, acs, repl)"
    by (auto simp: in_languages_iff)
  with assms(7) have acs: "waccs w = acs" and len: "length acs = 9"
    using table_lengths [OF m] by (auto simp: pitchWriter_def)
  have idx: "py_index (waccs w) (py_int (a * 4 + 4)) = Inr (waccs w ! nat (k + 4))"
    using k len acs by (simp add: py_int_quarter py_index_in_range)
  have zero: "a = 0 \<longleftrightarrow> k = 0"
    using k(1) by (auto simp: Fract_of_int_quotient)
  have entry: "waccs w ! nat (k + 4) \<noteq> [] \<or> k = 0"
    using assms(8) idx zero by auto
  have "n \<in> set [0..6]" "k \<in> set [-4..4]"
    using assms(2,3) k(2,3) by auto
  with roundtrip_table assms(1) have
    "case pitchWriter L of Inl e \<Rightarrow> False | Inr w \<Rightarrow>
      (waccs w ! nat (k + 4) \<noteq> [] \<or> k = 0) \<longrightarrow>
      (case write_in L n (Fract k 4) of Inl e \<Rightarrow> False
       | Inr s \<Rightarrow> read_in L s = Inr (Some (n, Fract k 4)))"
    by blast
  with assms(7) entry k(1) show ?thesis
    by (auto split: sum.splits)
qed

theorem decode_encode_roundtrip_witness:
  "''deutsch'' \<in> set languages \<and> (0::int) \<le> 6 \<and> (6::int) \<le> 6
   \<and> - 1 \<le> (- 1 :: rat) \<and> (- 1 :: rat) \<le> 1 \<and> (- 1 :: rat) * 4 \<in> \<int>
   \<and> (\<exists>w. pitchWriter ''deutsch'' = Inr w \<and>
           py_index (waccs w) (py_int (- 1 * 4 + 4)) = Inr ''eses'')
   \<and> write_in ''deutsch'' 6 (- 1) = Inr ''bes''
   \<and> read_in ''deutsch'' ''bes'' = Inr (Some (6, - 1))"
proof -
  have 1: "''deutsch'' \<in> set languages" by code_simp
  have 2: "pitchWriter ''deutsch'' = Inr \<lparr>wlanguage = ''deutsch'', wnames = fst deutsch,
      waccs = fst (snd deutsch), wreplacements = snd (snd deutsch)\<rparr>"
    by code_simp
  have 3: "py_index (fst (snd deutsch)) (py_int (- 1 * 4 + 4)) = Inr ''eses''"
    by code_simp
  have 4: "write_in ''deutsch'' 6 (- 1) = Inr ''bes''" by code_simp
  have 5: "(- 1 :: rat) * 4 \<in> \<int>" by simp
  from decode_encode_roundtrip [OF 1, of 6 "- 1", OF _ _ _ _ 5 2] 3 4 show ?thesis
    using 1 2 5 by auto
qed

subsection \<open>Replacement rules\<close>

lemma replacements_cases:
  "map_of pitchInfo L = Some (ns, acs, repl) \<Longrightarrow>
   repl = [] \<or> repl = [(''ees'', ''es''), (''aes'', ''as'')]
   \<or> repl = [(''ees'', ''es''), (''aes'', ''as''), (''hes'', ''b'')]
   \<or> repl = [(''ees'', ''es''), (''aes'', ''as''), (''hess'', ''b'')]"
  by (auto simp: pitchInfo_def nederlands_def english_def deutsch_def svenska_def
        italiano_def espanol_def portugues_def vlaams_def split: if_splits)

lemma writer_replace_first_match: "writer_replace repl pitch = first_match_write repl pitch"
  by (induction repl pitch rule: writer_replace.induct) (auto simp: first_match_write_def)

lemma writer_applied_first_match:
  "writer_applied repl pitch =
     (case find (\<lambda>(s, r). startswith pitch s) repl of None \<Rightarrow> [] | Some sr \<Rightarrow> [sr])"
  by (induction repl pitch rule: writer_applied.induct) auto

text \<open>
  The reader's loop has no \<open>break\<close>. With the replacement lists of the table it still
  applies the first matching pair only: a text rewritten by a pair starts with \<open>ee\<close>,
  \<open>ae\<close> or \<open>he\<close>, and no later alternate prefix (\<open>as\<close>, \<open>b\<close>) is a prefix of that.
\<close>

lemma reader_table:
  assumes "repl = [] \<or> repl = [(''ees'', ''es''), (''aes'', ''as'')]
   \<or> repl = [(''ees'', ''es''), (''aes'', ''as''), (''hes'', ''b'')]
   \<or> repl = [(''ees'', ''es''), (''aes'', ''as''), (''hess'', ''b'')]"
  shows "reader_replace repl str = first_match_read repl str"
    and "reader_applied repl str =
     (case find (\<lambda>(s, r). startswith str r) repl of None \<Rightarrow> [] | Some sr \<Rightarrow> [sr])"
  using assms by (auto simp: first_match_read_def startswith_def)

text \<open>
  C7: for every registered language and every string, the rewrite made when decoding
  and the substitution made when encoding apply at most one replacement pair: the
  pairs are tried in list order, and the first pair whose prefix matches is the only
  one applied, so that both loops compute what the first-match rule of the
  specification computes.
\<close>

theorem replacement_first_match_only:
  assumes "pitchReader L = Inr rd" and "pitchWriter L = Inr wr"
  shows "reader_replace (rreplacements rd) str = first_match_read (rreplacements rd) str
       \<and> reader_applied (rreplacements rd) str =
           (case find (\<lambda>(s, r). startswith str r) (rreplacements rd) of
              None \<Rightarrow> [] | Some sr \<Rightarrow> [sr])
       \<and> length (reader_applied (rreplacements rd) str) \<le> 1
       \<and> writer_replace (wreplacements wr) pitch = first_match_write (wreplacements wr) pitch
       \<and> writer_applied (wreplacements wr) pitch =
           (case find (\<lambda>(s, r). startswith pitch s) (wreplacements wr) of
              None \<Rightarrow> [] | Some sr \<Rightarrow> [sr])
       \<and> length (writer_applied (wreplacements wr) pitch) \<le> 1"
proof -
  from assms obtain ns acs repl where m: "map_of pitchInfo L = Some (ns, acs, repl)"
    and rd: "rreplacements rd = repl" and wr: "wreplacements wr = repl"
    by (auto simp: pitchReader_def pitchWriter_def split: option.splits)
  show ?thesis
    unfolding rd wr
    using reader_table [OF replacements_cases [OF m], of str]
      writer_replace_first_match [of repl pitch] writer_applied_first_match [of repl pitch]
    by (auto split: option.splits)
qed

theorem replacement_first_match_only_witness:
  "(\<exists>rd wr. pitchReader ''deutsch'' = Inr rd \<and> pitchWriter ''deutsch'' = Inr wr
      \<and> reader_replace (rreplacements rd) ''bes'' = ''heses''
      \<and> reader_applied (rreplacements rd) ''bes'' = [(''hes'', ''b'')]
      \<and> first_match_read (rreplacements rd) ''bes'' = ''heses''
      \<and> writer_replace (wreplacements wr) ''heses'' = ''bes''
      \<and> writer_applied (wreplacements wr) ''heses'' = [(''hes'', ''b'')]
      \<and> first_match_write (wreplacements wr) ''heses'' = ''bes'')"
proof -
  let ?rd = "\<lparr>rnames = fst deutsch, raccs = fst (snd deutsch),
              rreplacements = snd (snd deutsch)\<rparr>"
  let ?wr = "\<lparr>wlanguage = ''deutsch'', wnames = fst deutsch, waccs = fst (snd deutsch),
              wreplacements = snd (snd deutsch)\<rparr>"
  have 1: "pitchReader ''deutsch'' = Inr ?rd" by code_simp
  have 2: "pitchWriter ''deutsch'' = Inr ?wr" by code_simp
  have 3: "reader_replace (rreplacements ?rd) ''bes'' = ''heses''" by code_simp
  have 4: "reader_applied (rreplacements ?rd) ''bes'' = [(''hes'', ''b'')]" by code_simp
  have 5: "writer_replace (wreplacements ?wr) ''heses'' = ''bes''" by code_simp
  have 6: "writer_applied (wreplacements ?wr) ''heses'' = [(''hes'', ''b'')]" by code_simp
  from replacement_first_match_only [OF 1 2, of "''bes''" "''heses''"] 1 2 3 4 5 6
  show ?thesis by metis
qed

section \<open>Octave arithmetic\<close>

text \<open>
  C8: \<open>makeAbsolute\<close> adds \<open>prev.octave - floor((p.note - prev.note + 3) / 7)\<close> to the
  octave of \<open>p\<close>, the quotient rounded towards minus infinity, and \<open>makeRelative\<close> with
  the same \<open>prev\<close> gives back the octave \<open>p\<close> had (and so the pitch \<open>p\<close>). This holds for
  all integer notes and octaves, those with notes in \<open>0..6\<close> among them. For \<open>c\<close> after
  \<open>b\<close> the quotient is \<open>-1\<close>, where truncation would give 0.
\<close>

theorem makeRelative_makeAbsolute:
  "octave (makeAbsolute p prev) =
     octave p + (octave prev - \<lfloor>rat_of_int (note p - note prev + 3) / 7\<rfloor>)
   \<and> octave (makeRelative (makeAbsolute p prev) prev) = octave p
   \<and> makeRelative (makeAbsolute p prev) prev = p
   \<and> octave (makeAbsolute \<lparr>note = 0, alter = 0, octave = 0\<rparr>
                           \<lparr>note = 6, alter = 0, octave = 0\<rparr>) = 1"
  unfolding floor_div7 by (simp add: makeAbsolute_def makeRelative_def)

section \<open>The scanner\<close>

lemma setLanguage_unknown:
  "lang \<notin> set languages \<Longrightarrow> setLanguage lang self = (False, self)"
  by (simp add: setLanguage_def languages_def)

lemma tokens_take_skipped:
  assumes "\<forall>t \<in> set skipped. tclass t = Space \<or> ttext t = [CHR 0x22]"
    and "source self = skipped @ rest"
  shows "tokens_take (length skipped + n) AtInnerLoop self =
           (case tokens_take n AtInnerLoop (self\<lparr>source := rest\<rparr>) of
              (ts, pc', self') \<Rightarrow> (map Token skipped @ ts, pc', self'))"
  using assms
proof (induction skipped arbitrary: self)
  case Nil
  then have "self\<lparr>source := rest\<rparr> = self" by auto
  then show ?case by (simp split: prod.splits)
next
  case (Cons t skipped)
  have "tokens_next AtInnerLoop self =
          (Some (Token t), AtInnerLoop, self\<lparr>source := skipped @ rest\<rparr>)"
    using Cons.prems by auto
  moreover have "tokens_take (length skipped + n) AtInnerLoop (self\<lparr>source := skipped @ rest\<rparr>) =
           (case tokens_take n AtInnerLoop (self\<lparr>source := skipped @ rest, source := rest\<rparr>) of
              (ts, pc', self') \<Rightarrow> (map Token skipped @ ts, pc', self'))"
    using Cons.prems by (intro Cons.IH) auto
  ultimately show ?case
    by (simp split: prod.splits)
qed

lemma tokens_next_candidate:
  assumes "tclass cand \<noteq> Space" and "ttext cand \<noteq> [CHR 0x22]"
    and "language_of_token (ttext cand) \<notin> set languages"
    and "source self = cand # rest"
  shows "tokens_next AtInnerLoop self = tokens_next AtOuterLoop (self\<lparr>source := rest\<rparr>)"
  using assms by (simp add: setLanguage_unknown)

lemma tokens_next_language:
  assumes "tokens_next pc self = (y, pc', self')"
  shows "language self' = language self \<or>
         (\<exists>l k. y = Some (LanguageName l k) \<and> l \<in> set languages \<and> language self' = Some l)"
  using assms
  by (cases pc)
     (auto simp: setLanguage_def languages_def Let_def split: list.splits if_splits)

lemma tokens_take_language:
  assumes "tokens_take n pc self = (ts, pc', self')"
    and "\<forall>l k. LanguageName l k \<notin> set ts"
  shows "language self' = language self"
  using assms
proof (induction n arbitrary: pc self ts)
  case 0
  then show ?case by simp
next
  case (Suc n)
  obtain y pc1 self1 where r: "tokens_next pc self = (y, pc1, self1)"
    by (cases "tokens_next pc self") auto
  show ?case
  proof (cases y)
    case None
    with Suc.prems r tokens_next_language [OF r] show ?thesis by auto
  next
    case (Some t)
    obtain ts1 where ts1: "tokens_take n pc1 self1 = (ts1, pc', self')" and ts: "ts = t # ts1"
      using Suc.prems(1) r Some by (auto split: prod.splits)
    have "language self' = language self1"
      using Suc.IH [OF ts1] Suc.prems(2) ts by auto
    moreover have "language self1 = language self"
      using tokens_next_language [OF r] Some Suc.prems(2) ts by auto
    ultimately show ?thesis by simp
  qed
qed

text \<open>
  C9: the scanner is at its outer loop and the source continues with an \<open>\include\<close>
  or \<open>\language\<close> keyword, then tokens that are whitespace or a quote mark, then a
  candidate that is neither and whose name (without a final \<open>.ly\<close>) is no language of
  the table. Then the keyword and the skipped tokens are yielded as they are; the next
  token asked for is what the scanner at its outer loop yields from the rest after the
  candidate, with the same iterator object but for the consumed source: the candidate
  is not yielded, the language is the one before the directive, and every later token
  comes as it does without the directive.
\<close>

theorem unresolved_language_directive:
  assumes "is_directive kw"
    and "\<forall>t \<in> set skipped. tclass t = Space \<or> ttext t = [CHR 0x22]"
    and "tclass cand \<noteq> Space" and "ttext cand \<noteq> [CHR 0x22]"
    and "language_of_token (ttext cand) \<notin> set languages"
    and "source self = kw # skipped @ cand # rest"
  shows "tokens_take (Suc (length skipped)) AtOuterLoop self =
           (Token kw # map Token skipped, AtInnerLoop, self\<lparr>source := cand # rest\<rparr>)
       \<and> tokens_take (Suc (length skipped) + Suc n) AtOuterLoop self =
           (case tokens_take (Suc n) AtOuterLoop (self\<lparr>source := rest\<rparr>) of
              (ts, pc', self') \<Rightarrow> (Token kw # map Token skipped @ ts, pc', self'))
       \<and> language (snd (snd (tokens_take (Suc (Suc (length skipped))) AtOuterLoop self)))
           = language self"
proof -
  let ?s1 = "self\<lparr>source := skipped @ cand # rest\<rparr>"
  have first: "tokens_next AtOuterLoop self = (Some (Token kw), AtInnerLoop, ?s1)"
    using assms(1,6) by simp
  have skip: "tokens_take (length skipped + m) AtInnerLoop ?s1 =
           (case tokens_take m AtInnerLoop (self\<lparr>source := cand # rest\<rparr>) of
              (ts, pc', self') \<Rightarrow> (map Token skipped @ ts, pc', self'))" for m
    using tokens_take_skipped [OF assms(2), of ?s1 "cand # rest" m] by simp
  have cand: "tokens_next AtInnerLoop (self\<lparr>source := cand # rest\<rparr>) =
              tokens_next AtOuterLoop (self\<lparr>source := rest\<rparr>)"
    using tokens_next_candidate [OF assms(3,4,5), of "self\<lparr>source := cand # rest\<rparr>" rest]
    by simp
  have a: "tokens_take (Suc (length skipped)) AtOuterLoop self =
           (Token kw # map Token skipped, AtInnerLoop, self\<lparr>source := cand # rest\<rparr>)"
    using first skip [of 0] by simp
  have b: "tokens_take (Suc (length skipped) + Suc n) AtOuterLoop self =
           (case tokens_take (Suc n) AtOuterLoop (self\<lparr>source := rest\<rparr>) of
              (ts, pc', self') \<Rightarrow> (Token kw # map Token skipped @ ts, pc', self'))"
    using first skip [of "Suc n"] cand by (simp split: prod.splits option.splits)
  have c: "language (snd (snd (tokens_take (Suc (Suc (length skipped))) AtOuterLoop self)))
           = language self"
    using first skip [of "Suc 0"] cand by (simp split: prod.splits option.splits list.splits)
  from a b c show ?thesis by blast
qed

theorem unresolved_language_directive_witness:
  "tokens_take 5 AtOuterLoop (PitchIterator_init
      [\<lparr>tclass = Keyword, ttext = CHR 0x5C # ''include'', tpos = 0, tend = 8\<rparr>,
       \<lparr>tclass = Space, ttext = '' '', tpos = 8, tend = 9\<rparr>,
       \<lparr>tclass = Other, ttext = [CHR 0x22], tpos = 9, tend = 10\<rparr>,
       \<lparr>tclass = Other, ttext = ''foo.ly'', tpos = 10, tend = 16\<rparr>,
       \<lparr>tclass = Other, ttext = [CHR 0x22], tpos = 16, tend = 17\<rparr>,
       \<lparr>tclass = Note, ttext = ''c'', tpos = 18, tend = 19\<rparr>]) =
     ([Token \<lparr>tclass = Keyword, ttext = CHR 0x5C # ''include'', tpos = 0, tend = 8\<rparr>,
       Token \<lparr>tclass = Space, ttext = '' '', tpos = 8, tend = 9\<rparr>,
       Token \<lparr>tclass = Other, ttext = [CHR 0x22], tpos = 9, tend = 10\<rparr>,
       Token \<lparr>tclass = Other, ttext = [CHR 0x22], tpos = 16, tend = 17\<rparr>,
       Token \<lparr>tclass = Note, ttext = ''c'', tpos = 18, tend = 19\<rparr>],
      AtOuterLoop,
      \<lparr>source = [], language = Some ''nederlands''\<rparr>)"
proof -
  let ?kw = "\<lparr>tclass = Keyword, ttext = CHR 0x5C # ''include'', tpos = 0, tend = 8\<rparr>"
  let ?sp = "\<lparr>tclass = Space, ttext = '' '', tpos = 8, tend = 9\<rparr>"
  let ?q1 = "\<lparr>tclass = Other, ttext = [CHR 0x22], tpos = 9, tend = 10\<rparr>"
  let ?cand = "\<lparr>tclass = Other, ttext = ''foo.ly'', tpos = 10, tend = 16\<rparr>"
  let ?q2 = "\<lparr>tclass = Other, ttext = [CHR 0x22], tpos = 16, tend = 17\<rparr>"
  let ?c = "\<lparr>tclass = Note, ttext = ''c'', tpos = 18, tend = 19\<rparr>"
  let ?self = "PitchIterator_init [?kw, ?sp, ?q1, ?cand, ?q2, ?c]"
  have 1: "is_directive ?kw" by (simp add: is_directive_def)
  have 2: "\<forall>t \<in> set [?sp, ?q1]. tclass t = Space \<or> ttext t = [CHR 0x22]" by simp
  have 3: "tclass ?cand \<noteq> Space" by simp
  have 4: "ttext ?cand \<noteq> [CHR 0x22]" by simp
  have 5: "language_of_token (ttext ?cand) \<notin> set languages" by code_simp
  have 6: "source ?self = ?kw # [?sp, ?q1] @ ?cand # [?q2, ?c]"
    by (simp add: PitchIterator_init_def setLanguage_def)
  have 7: "tokens_take (Suc (Suc 0)) AtOuterLoop (?self\<lparr>source := [?q2, ?c]\<rparr>) =
     ([Token ?q2, Token ?c], AtOuterLoop, \<lparr>source = [], language = Some ''nederlands''\<rparr>)"
    by code_simp
  from unresolved_language_directive [OF 1 2 3 4 5 6, of "Suc 0"] 7
  show ?thesis by (simp add: eval_nat_numeral)
qed

lemma collect_language:
  assumes "collect pc self p t = (p', t', pc', self')"
  shows "language self' = language self \<or> (\<exists>l k. t' = Some (LanguageName l k))"
  using assms
proof (induction pc self p t rule: collect.induct)
  case (1 pc self p t)
  obtain y pc1 self1 where r: "tokens_next pc self = (y, pc1, self1)"
    by (cases "tokens_next pc self") auto
  note lang = tokens_next_language [OF r]
  show ?case
  proof (cases y)
    case None
    with "1.prems" r lang show ?thesis
      by (subst (asm) collect.simps) auto
  next
    case (Some z)
    show ?thesis
    proof (cases z)
      case (Token tk)
      have l1: "language self1 = language self"
        using lang Some Token by auto
      consider (oct) "tclass tk = Octave"
        | (chk) "tclass tk \<noteq> Octave" "tclass tk = OctaveCheck"
        | (brk) "tclass tk \<noteq> Octave" "tclass tk \<noteq> OctaveCheck"
                "\<not> (tclass tk = Space \<or> tclass tk = Accidental)"
        | (skip) "tclass tk \<noteq> Octave" "tclass tk \<noteq> OctaveCheck"
                 "tclass tk = Space \<or> tclass tk = Accidental"
        by blast
      then show ?thesis
      proof cases
        case oct
        let ?q = "p\<lparr>octave := octaveToNum (ttext tk), origOctave := octaveToNum (ttext tk),
                   octaveSlice := Slice (tpos tk) (tend tk)\<rparr>"
        have "collect pc1 self1 ?q (Some (Token tk)) = (p', t', pc', self')"
          using "1.prems" Some r Token oct by (subst (asm) collect.simps) simp
        with "1.IH"(1) [OF r [symmetric] Some Token refl oct] l1
        show ?thesis by auto
      next
        case chk
        with "1.prems" Some r Token l1 show ?thesis
          by (subst (asm) collect.simps) auto
      next
        case brk
        with "1.prems" Some r Token l1 show ?thesis
          by (subst (asm) collect.simps) auto
      next
        case skip
        have "collect pc1 self1 p (Some (Token tk)) = (p', t', pc', self')"
          using "1.prems" Some r Token skip by (subst (asm) collect.simps) auto
        with "1.IH"(2) [OF r [symmetric] Some Token refl skip(1) skip(2)] l1 skip(3)
        show ?thesis by auto
      qed
    next
      case (LanguageName l k)
      with "1.prems" Some r show ?thesis
        by (subst (asm) collect.simps) auto
    next
      case (PitchObj q)
      with "1.prems" Some r lang show ?thesis
        by (subst (asm) collect.simps) auto
    qed
  qed
qed

lemma before_directive_yield:
  "before_directive (yield y g) = (if is_LanguageName y then [] else y # before_directive g)"
  by (simp add: before_directive_def yield_def)

lemma same_before_directive:
  "language self = Some L \<or> (\<exists>l k. t = Some (LanguageName l k)) \<Longrightarrow>
   before_directive (pitches_loop t pc self) = before_directive (pitches_loop_in L t pc self)"
proof (induction t pc self rule: pitches_loop.induct)
  case (1 pc self)
  then have L: "language self = Some L" by simp
  obtain y pc1 self1 where r: "tokens_next pc self = (y, pc1, self1)"
    by (cases "tokens_next pc self") auto
  show ?case
  proof (cases y)
    case None
    with r show ?thesis
      by (simp add: pitches_loop.simps pitches_loop_in.simps)
  next
    case (Some z)
    have "language self1 = Some L \<or> (\<exists>l k. Some z = Some (LanguageName l k))"
      using tokens_next_language [OF r] L Some by auto
    from "1.IH" [OF r [symmetric] Some refl this] r Some show ?thesis
      by (simp add: pitches_loop.simps(1) pitches_loop_in.simps(1))
  qed
next
  case (2 tk pc self)
  then have L: "language self = Some L" by simp
  then have rd: "read self (ttext tk) = read_in L (ttext tk)"
    by (simp add: read_def)
  show ?case
  proof (cases "tclass tk = Note")
    case False
    with "2.IH"(3) L show ?thesis
      by (simp add: pitches_loop.simps(2) pitches_loop_in.simps(2) before_directive_yield)
  next
    case True
    show ?thesis
    proof (cases "read_in L (ttext tk)")
      case (Inl e)
      with True rd show ?thesis
        by (simp add: pitches_loop.simps(2) pitches_loop_in.simps(2))
    next
      case (Inr res)
      show ?thesis
      proof (cases res)
        case None
        with "2.IH"(1) [OF True] rd Inr L True show ?thesis
          by (simp add: pitches_loop.simps(2) pitches_loop_in.simps(2))
      next
        case (Some p)
        obtain p' t' pc' self' where c: "collect pc self (new_pitch p tk) None = (p', t', pc', self')"
          by (cases "collect pc self (new_pitch p tk) None") auto
        have lang': "language self' = Some L \<or> (\<exists>l k. t' = Some (LanguageName l k))"
          using collect_language [OF c] L by auto
        have rd': "read self (ttext tk) = Inr (Some p)"
          using rd Inr Some by simp
        from "2.IH"(2) [OF True rd' refl c [symmetric] refl refl lang']
        have "before_directive (pitches_loop t' pc' self') =
              before_directive (pitches_loop_in L t' pc' self')"
          by simp
        with True rd Inr Some c show ?thesis
          by (simp add: pitches_loop.simps(2) pitches_loop_in.simps(2) before_directive_yield)
      qed
    qed
  qed
next
  case (3 l k pc self)
  show ?case
    by (simp add: pitches_loop.simps(3) pitches_loop_in.simps(3) before_directive_yield)
next
  case (4 q pc self)
  then have L: "language self = Some L" by simp
  with "4.IH" show ?case
    by (simp add: pitches_loop.simps(4) pitches_loop_in.simps(4) before_directive_yield)
qed


lemma tokens_next_not_pitch:
  assumes "tokens_next pc self = (Some y, pc', self')"
  shows "y \<noteq> PitchObj q"
  using assms
  by (cases pc)
     (auto simp: setLanguage_def Let_def split: list.splits if_splits)

lemma collect_keeps:
  assumes "collect pc self p t = (p', t', pc', self')"
  shows "note p' = note p \<and> alter p' = alter p \<and> noteToken p' = noteToken p \<and>
         (t' = t \<or> (\<forall>q. t' \<noteq> Some (PitchObj q)))"
  using assms
proof (induction pc self p t rule: collect.induct)
  case (1 pc self p t)
  obtain y pc1 self1 where r: "tokens_next pc self = (y, pc1, self1)"
    by (cases "tokens_next pc self") auto
  show ?case
  proof (cases y)
    case None
    with "1.prems" r show ?thesis
      by (subst (asm) collect.simps) auto
  next
    case (Some z)
    show ?thesis
    proof (cases z)
      case (Token tk)
      consider (oct) "tclass tk = Octave"
        | (chk) "tclass tk \<noteq> Octave" "tclass tk = OctaveCheck"
        | (brk) "tclass tk \<noteq> Octave" "tclass tk \<noteq> OctaveCheck"
                "\<not> (tclass tk = Space \<or> tclass tk = Accidental)"
        | (skip) "tclass tk \<noteq> Octave" "tclass tk \<noteq> OctaveCheck"
                 "tclass tk = Space \<or> tclass tk = Accidental"
        by blast
      then show ?thesis
      proof cases
        case oct
        let ?q = "p\<lparr>octave := octaveToNum (ttext tk), origOctave := octaveToNum (ttext tk),
                   octaveSlice := Slice (tpos tk) (tend tk)\<rparr>"
        have "collect pc1 self1 ?q (Some (Token tk)) = (p', t', pc', self')"
          using "1.prems" Some r Token oct by (subst (asm) collect.simps) simp
        with "1.IH"(1) [OF r [symmetric] Some Token refl oct]
        show ?thesis by auto
      next
        case chk
        with "1.prems" Some r Token show ?thesis
          by (subst (asm) collect.simps) auto
      next
        case brk
        with "1.prems" Some r Token show ?thesis
          by (subst (asm) collect.simps) auto
      next
        case skip
        have "collect pc1 self1 p (Some (Token tk)) = (p', t', pc', self')"
          using "1.prems" Some r Token skip by (subst (asm) collect.simps) auto
        with "1.IH"(2) [OF r [symmetric] Some Token refl skip(1) skip(2)] skip(3)
        show ?thesis by auto
      qed
    next
      case (LanguageName l k)
      with "1.prems" Some r show ?thesis
        by (subst (asm) collect.simps) auto
    next
      case (PitchObj q)
      with r Some tokens_next_not_pitch [of pc self z pc1 self1 q] show ?thesis
        by simp
    qed
  qed
qed

lemma decoded_before_directive:
  "language self = Some L \<or> (\<exists>l k. t = Some (LanguageName l k)) \<Longrightarrow>
   \<forall>q. t \<noteq> Some (PitchObj q) \<Longrightarrow>
   PitchObj p \<in> set (before_directive (pitches_loop t pc self)) \<Longrightarrow>
   tclass (noteToken p) = Note \<and>
   read_in L (ttext (noteToken p)) = Inr (Some (note p, alter p))"
proof (induction t pc self rule: pitches_loop.induct)
  case (1 pc self)
  then have L: "language self = Some L" by simp
  obtain y pc1 self1 where r: "tokens_next pc self = (y, pc1, self1)"
    by (cases "tokens_next pc self") auto
  show ?case
  proof (cases y)
    case None
    with r "1.prems"(3) show ?thesis
      by (simp add: pitches_loop.simps before_directive_def)
  next
    case (Some z)
    have a: "language self1 = Some L \<or> (\<exists>l k. Some z = Some (LanguageName l k))"
      using tokens_next_language [OF r] L Some by auto
    have b: "\<forall>q. Some z \<noteq> Some (PitchObj q)"
      using tokens_next_not_pitch [of pc self z pc1 self1] r Some by auto
    have c: "PitchObj p \<in> set (before_directive (pitches_loop (Some z) pc1 self1))"
      using "1.prems"(3) r Some by (simp add: pitches_loop.simps(1))
    from "1.IH" [OF r [symmetric] Some refl a b c] show ?thesis .
  qed
next
  case (2 tk pc self)
  then have L: "language self = Some L" by simp
  then have rd: "read self (ttext tk) = read_in L (ttext tk)"
    by (simp add: read_def)
  show ?case
  proof (cases "tclass tk = Note")
    case False
    with "2.prems"(3) have "PitchObj p \<in> set (before_directive (pitches_loop None pc self))"
      by (simp add: pitches_loop.simps(2) before_directive_yield)
    from "2.IH"(3) [OF False _ _ this] L show ?thesis by simp
  next
    case True
    show ?thesis
    proof (cases "read_in L (ttext tk)")
      case (Inl e)
      with True rd "2.prems"(3) show ?thesis
        by (simp add: pitches_loop.simps(2) before_directive_def)
    next
      case (Inr res)
      show ?thesis
      proof (cases res)
        case None
        with "2.prems"(3) True rd Inr
        have "PitchObj p \<in> set (before_directive (pitches_loop None pc self))"
          by (simp add: pitches_loop.simps(2))
        from "2.IH"(1) [OF True _ _ _ _ this] rd Inr None L show ?thesis by simp
      next
        case (Some x)
        obtain p' t' pc' self' where c: "collect pc self (new_pitch x tk) None = (p', t', pc', self')"
          by (cases "collect pc self (new_pitch x tk) None") auto
        have lang': "language self' = Some L \<or> (\<exists>l k. t' = Some (LanguageName l k))"
          using collect_language [OF c] L by auto
        have keep: "note p' = fst x" "alter p' = snd x" "noteToken p' = tk"
                   "\<forall>q. t' \<noteq> Some (PitchObj q)"
          using collect_keeps [OF c] by (auto simp: new_pitch_def)
        have rd': "read self (ttext tk) = Inr (Some x)"
          using rd Inr Some by simp
        have mem: "p = p' \<or> PitchObj p \<in> set (before_directive (pitches_loop t' pc' self'))"
          using "2.prems"(3) True rd' c
          by (simp add: pitches_loop.simps(2) before_directive_yield)
        then show ?thesis
        proof
          assume "p = p'"
          with keep True Inr Some show ?thesis by simp
        next
          assume m: "PitchObj p \<in> set (before_directive (pitches_loop t' pc' self'))"
          from "2.IH"(2) [OF True rd' refl c [symmetric] refl refl lang' keep(4) m]
          show ?thesis .
        qed
      qed
    qed
  qed
next
  case (3 l k pc self)
  then show ?case
    by (simp add: pitches_loop.simps(3) before_directive_yield)
next
  case (4 q pc self)
  then show ?case by simp
qed

lemma first_note_is_decoded:
  assumes "language self = Some L" and "source self = tk # rest" and "tclass tk = Note"
    and "read_in L (ttext tk) = Inr (Some p)"
  shows "\<exists>q ys. fst (pitches self) = PitchObj q # ys \<and>
           note q = fst p \<and> alter q = snd p \<and> noteToken q = tk"
proof -
  let ?pc = "if is_directive tk then AtInnerLoop else AtOuterLoop"
  let ?self = "self\<lparr>source := rest\<rparr>"
  obtain p' t' pc' self' where c: "collect ?pc ?self (new_pitch p tk) None = (p', t', pc', self')"
    by (cases "collect ?pc ?self (new_pitch p tk) None") auto
  have rd: "read ?self (ttext tk) = Inr (Some p)"
    using assms(1,4) by (simp add: read_def)
  have "pitches self = pitches_loop (Some (Token tk)) ?pc ?self"
    using assms(2) by (simp add: pitches_def pitches_loop.simps(1))
  also have "\<dots> = yield (PitchObj p') (pitches_loop t' pc' self')"
    using assms(3) rd c by (simp add: pitches_loop.simps(2))
  finally have "fst (pitches self) = PitchObj p' # fst (pitches_loop t' pc' self')"
    by (simp add: yield_def)
  with collect_keeps [OF c] show ?thesis
    by (simp add: new_pitch_def)
qed

text \<open>
  C10: a new scanner has \<open>nederlands\<close> as its language, and until the token generator
  yields a \<open>LanguageName\<close>, which it does exactly for a recognised directive, every
  note token is decoded with the \<open>nederlands\<close> table. As long as the token generator
  has yielded no \<open>LanguageName\<close>, the language is \<open>nederlands\<close> and \<open>read\<close> decodes with
  the \<open>nederlands\<close> reader. What \<open>pitches\<close> yields before the first \<open>LanguageName\<close> is
  what the scanner that decodes every note token with the \<open>nederlands\<close> reader yields
  before it; every pitch yielded there stands for a note token whose \<open>nederlands\<close>
  reading is the note and alter of the pitch; and when the source starts with a note
  token that reads in \<open>nederlands\<close>, the first thing yielded is the pitch of that
  reading. Of the source \<open>es \language english es\<close> the first \<open>es\<close> is yielded as
  \<open>e\<close> flat, the \<open>nederlands\<close> reading, and the second, after the directive, as \<open>e\<close>
  sharp, the \<open>english\<close> one.
\<close>

theorem scanner_starts_in_nederlands:
  "language (PitchIterator_init src) = Some ''nederlands''
   \<and> (\<forall>n ts pc self'.
         tokens_take n AtOuterLoop (PitchIterator_init src) = (ts, pc, self')
         \<and> (\<forall>l k. LanguageName l k \<notin> set ts)
         \<longrightarrow> language self' = Some ''nederlands''
             \<and> (\<forall>tok. read self' tok = read_in ''nederlands'' tok))
   \<and> before_directive (pitches (PitchIterator_init src)) =
       before_directive (pitches_in ''nederlands'' (PitchIterator_init src))
   \<and> (\<forall>p. PitchObj p \<in> set (before_directive (pitches (PitchIterator_init src)))
         \<longrightarrow> tclass (noteToken p) = Note
             \<and> read_in ''nederlands'' (ttext (noteToken p)) = Inr (Some (note p, alter p)))
   \<and> (\<forall>tk rest p.
         src = tk # rest \<and> tclass tk = Note
         \<and> read_in ''nederlands'' (ttext tk) = Inr (Some p)
         \<longrightarrow> (\<exists>q ys. fst (pitches (PitchIterator_init src)) = PitchObj q # ys
                \<and> note q = fst p \<and> alter q = snd p \<and> noteToken q = tk))"
proof -
  let ?self = "PitchIterator_init src"
  have init: "language ?self = Some ''nederlands''"
    by (simp add: PitchIterator_init_def setLanguage_def pitchInfo_def)
  have src: "source ?self = src"
    by (simp add: PitchIterator_init_def setLanguage_def)
  have 1: "\<forall>n ts pc self'.
         tokens_take n AtOuterLoop ?self = (ts, pc, self')
         \<and> (\<forall>l k. LanguageName l k \<notin> set ts)
         \<longrightarrow> language self' = Some ''nederlands''
             \<and> (\<forall>tok. read self' tok = read_in ''nederlands'' tok)"
    using init tokens_take_language [of _ AtOuterLoop ?self]
    by (auto simp: read_def)
  have 2: "before_directive (pitches ?self) = before_directive (pitches_in ''nederlands'' ?self)"
    unfolding pitches_def pitches_in_def
    by (rule same_before_directive) (simp add: init)
  have 3: "tclass (noteToken p) = Note
           \<and> read_in ''nederlands'' (ttext (noteToken p)) = Inr (Some (note p, alter p))"
    if "PitchObj p \<in> set (before_directive (pitches ?self))" for p
    using that unfolding pitches_def
    by (intro decoded_before_directive [of ?self _ None p AtOuterLoop]) (simp_all add: init)
  have 4: "\<exists>q ys. fst (pitches ?self) = PitchObj q # ys
                \<and> note q = fst p \<and> alter q = snd p \<and> noteToken q = tk"
    if "src = tk # rest" "tclass tk = Note" "read_in ''nederlands'' (ttext tk) = Inr (Some p)"
    for tk rest p
    using first_note_is_decoded [OF init _ that(2,3), of rest] src that(1) by simp
  from init 1 2 3 4 show ?thesis by blast
qed

theorem scanner_starts_in_nederlands_witness:
  "fst (pitches (PitchIterator_init
       [\<lparr>tclass = Note, ttext = ''es'', tpos = 0, tend = 2\<rparr>,
        \<lparr>tclass = Keyword, ttext = [CHR 0x5C] @ ''language'', tpos = 3, tend = 12\<rparr>,
        \<lparr>tclass = Other, ttext = ''english'', tpos = 13, tend = 20\<rparr>,
        \<lparr>tclass = Note, ttext = ''es'', tpos = 21, tend = 23\<rparr>]))
     = [PitchObj \<lparr>note = 2, alter = - (1 / 2), octave = 0, noteToken = \<lparr>tclass = Note, ttext = ''es'', tpos = 0, tend = 2\<rparr>,
            origOctave = 0, octaveSlice = Slice 2 2, octaveCheck = None,
            origOctaveCheck = None, octaveCheckSlice = None\<rparr>,
        Token \<lparr>tclass = Keyword, ttext = [CHR 0x5C] @ ''language'', tpos = 3, tend = 12\<rparr>,
        LanguageName ''english'' 13,
        PitchObj \<lparr>note = 2, alter = 1 / 2, octave = 0, noteToken = \<lparr>tclass = Note, ttext = ''es'', tpos = 21, tend = 23\<rparr>,
            origOctave = 0, octaveSlice = Slice 23 23, octaveCheck = None,
            origOctaveCheck = None, octaveCheckSlice = None\<rparr>]
   \<and> before_directive (pitches_in ''nederlands'' (PitchIterator_init
       [\<lparr>tclass = Note, ttext = ''es'', tpos = 0, tend = 2\<rparr>,
        \<lparr>tclass = Keyword, ttext = [CHR 0x5C] @ ''language'', tpos = 3, tend = 12\<rparr>,
        \<lparr>tclass = Other, ttext = ''english'', tpos = 13, tend = 20\<rparr>,
        \<lparr>tclass = Note, ttext = ''es'', tpos = 21, tend = 23\<rparr>]))
     = [PitchObj \<lparr>note = 2, alter = - (1 / 2), octave = 0, noteToken = \<lparr>tclass = Note, ttext = ''es'', tpos = 0, tend = 2\<rparr>,
            origOctave = 0, octaveSlice = Slice 2 2, octaveCheck = None,
            origOctaveCheck = None, octaveCheckSlice = None\<rparr>,
        Token \<lparr>tclass = Keyword, ttext = [CHR 0x5C] @ ''language'', tpos = 3, tend = 12\<rparr>]
   \<and> PitchObj \<lparr>note = 2, alter = - (1 / 2), octave = 0, noteToken = \<lparr>tclass = Note, ttext = ''es'', tpos = 0, tend = 2\<rparr>,
            origOctave = 0, octaveSlice = Slice 2 2, octaveCheck = None,
            origOctaveCheck = None, octaveCheckSlice = None\<rparr>
       \<in> set (before_directive (pitches (PitchIterator_init
       [\<lparr>tclass = Note, ttext = ''es'', tpos = 0, tend = 2\<rparr>,
        \<lparr>tclass = Keyword, ttext = [CHR 0x5C] @ ''language'', tpos = 3, tend = 12\<rparr>,
        \<lparr>tclass = Other, ttext = ''english'', tpos = 13, tend = 20\<rparr>,
        \<lparr>tclass = Note, ttext = ''es'', tpos = 21, tend = 23\<rparr>])))
   \<and> (\<exists>q ys. fst (pitches (PitchIterator_init
       [\<lparr>tclass = Note, ttext = ''es'', tpos = 0, tend = 2\<rparr>,
        \<lparr>tclass = Keyword, ttext = [CHR 0x5C] @ ''language'', tpos = 3, tend = 12\<rparr>,
        \<lparr>tclass = Other, ttext = ''english'', tpos = 13, tend = 20\<rparr>,
        \<lparr>tclass = Note, ttext = ''es'', tpos = 21, tend = 23\<rparr>])) = PitchObj q # ys
         \<and> note q = 2 \<and> alter q = - (1 / 2)
         \<and> noteToken q = \<lparr>tclass = Note, ttext = ''es'', tpos = 0, tend = 2\<rparr>)
   \<and> read_in ''nederlands'' ''es'' = Inr (Some (2, - (1 / 2)))
   \<and> read_in ''english'' ''es'' = Inr (Some (2, 1 / 2))
   \<and> tokens_take 2 AtOuterLoop (PitchIterator_init
       [\<lparr>tclass = Note, ttext = ''es'', tpos = 0, tend = 2\<rparr>,
        \<lparr>tclass = Keyword, ttext = [CHR 0x5C] @ ''language'', tpos = 3, tend = 12\<rparr>,
        \<lparr>tclass = Other, ttext = ''english'', tpos = 13, tend = 20\<rparr>,
        \<lparr>tclass = Note, ttext = ''es'', tpos = 21, tend = 23\<rparr>])
     = ([Token \<lparr>tclass = Note, ttext = ''es'', tpos = 0, tend = 2\<rparr>, Token \<lparr>tclass = Keyword, ttext = [CHR 0x5C] @ ''language'', tpos = 3, tend = 12\<rparr>], AtInnerLoop,
        \<lparr>source = [\<lparr>tclass = Other, ttext = ''english'', tpos = 13, tend = 20\<rparr>, \<lparr>tclass = Note, ttext = ''es'', tpos = 21, tend = 23\<rparr>], language = Some ''nederlands''\<rparr>)
   \<and> (\<forall>l k. LanguageName l k \<notin> set [Token \<lparr>tclass = Note, ttext = ''es'', tpos = 0, tend = 2\<rparr>, Token \<lparr>tclass = Keyword, ttext = [CHR 0x5C] @ ''language'', tpos = 3, tend = 12\<rparr>])
   \<and> read \<lparr>source = [\<lparr>tclass = Other, ttext = ''english'', tpos = 13, tend = 20\<rparr>, \<lparr>tclass = Note, ttext = ''es'', tpos = 21, tend = 23\<rparr>], language = Some ''nederlands''\<rparr> ''es''
     = Inr (Some (2, - (1 / 2)))"
proof -
  let ?src = "[\<lparr>tclass = Note, ttext = ''es'', tpos = 0, tend = 2\<rparr>,
        \<lparr>tclass = Keyword, ttext = [CHR 0x5C] @ ''language'', tpos = 3, tend = 12\<rparr>,
        \<lparr>tclass = Other, ttext = ''english'', tpos = 13, tend = 20\<rparr>,
        \<lparr>tclass = Note, ttext = ''es'', tpos = 21, tend = 23\<rparr>]"
  let ?p0 = "\<lparr>note = 2, alter = - (1 / 2), octave = 0, noteToken = \<lparr>tclass = Note, ttext = ''es'', tpos = 0, tend = 2\<rparr>,
            origOctave = 0, octaveSlice = Slice 2 2, octaveCheck = None,
            origOctaveCheck = None, octaveCheckSlice = None\<rparr>"
  let ?rest = "\<lparr>source = [\<lparr>tclass = Other, ttext = ''english'', tpos = 13, tend = 20\<rparr>, \<lparr>tclass = Note, ttext = ''es'', tpos = 21, tend = 23\<rparr>], language = Some ''nederlands''\<rparr>"
  have out: "fst (pitches (PitchIterator_init ?src))
     = [PitchObj ?p0,
        Token \<lparr>tclass = Keyword, ttext = [CHR 0x5C] @ ''language'', tpos = 3, tend = 12\<rparr>,
        LanguageName ''english'' 13,
        PitchObj \<lparr>note = 2, alter = 1 / 2, octave = 0, noteToken = \<lparr>tclass = Note, ttext = ''es'', tpos = 21, tend = 23\<rparr>,
            origOctave = 0, octaveSlice = Slice 23 23, octaveCheck = None,
            origOctaveCheck = None, octaveCheckSlice = None\<rparr>]"
    by code_simp
  have pre: "before_directive (pitches (PitchIterator_init ?src))
     = [PitchObj ?p0, Token \<lparr>tclass = Keyword, ttext = [CHR 0x5C] @ ''language'', tpos = 3, tend = 12\<rparr>]"
    by code_simp
  have nl: "read_in ''nederlands'' ''es'' = Inr (Some (2, - (1 / 2)))"
    by code_simp
  have en: "read_in ''english'' ''es'' = Inr (Some (2, 1 / 2))"
    by code_simp
  have tk: "tokens_take 2 AtOuterLoop (PitchIterator_init ?src)
     = ([Token \<lparr>tclass = Note, ttext = ''es'', tpos = 0, tend = 2\<rparr>, Token \<lparr>tclass = Keyword, ttext = [CHR 0x5C] @ ''language'', tpos = 3, tend = 12\<rparr>], AtInnerLoop, ?rest)"
    by code_simp
  have no: "\<forall>l k. LanguageName l k \<notin> set [Token \<lparr>tclass = Note, ttext = ''es'', tpos = 0, tend = 2\<rparr>, Token \<lparr>tclass = Keyword, ttext = [CHR 0x5C] @ ''language'', tpos = 3, tend = 12\<rparr>]"
    by simp
  have mem: "PitchObj ?p0 \<in> set (before_directive (pitches (PitchIterator_init ?src)))"
    unfolding pre by simp
  note thm0 = scanner_starts_in_nederlands [of ?src]
  from thm0 pre
  have a: "before_directive (pitches_in ''nederlands'' (PitchIterator_init ?src))
     = [PitchObj ?p0, Token \<lparr>tclass = Keyword, ttext = [CHR 0x5C] @ ''language'', tpos = 3, tend = 12\<rparr>]"
    by simp
  from thm0 tk no
  have "\<forall>tok. read ?rest tok = read_in ''nederlands'' tok"
    by blast
  with nl have b: "read ?rest ''es'' = Inr (Some (2, - (1 / 2)))"
    by simp
  have "\<lparr>tclass = Note, ttext = ''es'', tpos = 0, tend = 2\<rparr> # [\<lparr>tclass = Keyword, ttext = [CHR 0x5C] @ ''language'', tpos = 3, tend = 12\<rparr>, \<lparr>tclass = Other, ttext = ''english'', tpos = 13, tend = 20\<rparr>, \<lparr>tclass = Note, ttext = ''es'', tpos = 21, tend = 23\<rparr>] = ?src
        \<and> tclass \<lparr>tclass = Note, ttext = ''es'', tpos = 0, tend = 2\<rparr> = Note
        \<and> read_in ''nederlands'' (ttext \<lparr>tclass = Note, ttext = ''es'', tpos = 0, tend = 2\<rparr>) = Inr (Some (2, - (1 / 2)))"
    using nl by simp
  with thm0
  have "\<exists>q ys. fst (pitches (PitchIterator_init ?src)) = PitchObj q # ys
          \<and> note q = fst (2::int, - (1 / 2) :: rat) \<and> alter q = snd (2::int, - (1 / 2) :: rat)
          \<and> noteToken q = \<lparr>tclass = Note, ttext = ''es'', tpos = 0, tend = 2\<rparr>"
    by blast
  then have c: "\<exists>q ys. fst (pitches (PitchIterator_init ?src)) = PitchObj q # ys
          \<and> note q = 2 \<and> alter q = - (1 / 2)
          \<and> noteToken q = \<lparr>tclass = Note, ttext = ''es'', tpos = 0, tend = 2\<rparr>"
    by simp
  from thm0 mem
  have "read_in ''nederlands'' (ttext (noteToken ?p0)) = Inr (Some (note ?p0, alter ?p0))"
    by blast
  then have d: "read_in ''nederlands'' ''es'' = Inr (Some (2, - (1 / 2)))"
    by simp
  from out a mem c d en tk no b show ?thesis
    by blast
qed

lemma unreadable_note_skipped:
  assumes "tclass tk = Note" and "read self (ttext tk) = Inr None"
  shows "pitches_loop (Some (Token tk)) pc self = pitches_loop None pc self"
  using assms by (simp add: pitches_loop.simps)

text \<open>
  C3 says that a note token that does not decode appears unchanged in what the scanner
  yields. The scanner leaves its \<open>while\<close> with \<open>break\<close> for such a token, which goes past
  the \<open>else\<close> branch that yields tokens: of the source \<open>q\<close>, a space, \<open>c\<close> in
  \<open>nederlands\<close> it yields the space and the pitch \<open>c\<close>, and never the token \<open>q\<close>.
\<close>

theorem unreadable_note_is_dropped:
  "pitches (PitchIterator_init
      [\<lparr>tclass = Note, ttext = ''q'', tpos = 0, tend = 1\<rparr>,
       \<lparr>tclass = Space, ttext = '' '', tpos = 1, tend = 2\<rparr>,
       \<lparr>tclass = Note, ttext = ''c'', tpos = 2, tend = 3\<rparr>]) =
   ([Token \<lparr>tclass = Space, ttext = '' '', tpos = 1, tend = 2\<rparr>,
     PitchObj \<lparr>note = 0, alter = 0, octave = 0,
        noteToken = \<lparr>tclass = Note, ttext = ''c'', tpos = 2, tend = 3\<rparr>,
        origOctave = 0, octaveSlice = Slice 3 3,
        octaveCheck = None, origOctaveCheck = None, octaveCheckSlice = None\<rparr>],
    None)"
  by code_simp

section \<open>Write-back\<close>

lemma write_unchanged_without_check:
  assumes "language_or lang self = Inr L"
    and "write_in L (note pitch) (alter pitch) = Inr (ttext (noteToken pitch))"
    and "octave pitch = origOctave pitch"
    and "origOctaveCheck pitch = None"
  shows "PitchIterator_write self pitch doc lang = (None, doc)"
  using assms
  by (auto simp: PitchIterator_write_def write_in_def Let_def split: sum.splits)

text \<open>
  C4 says that writing back a pitch none of whose fields was changed asks the document
  for nothing. The scanner yields for \<open>c\<close> followed by the octave check \<open>='\<close> a pitch with
  that check; written back as it is, the note and the octave ask for nothing, but the
  check is assigned again to its range: the branch for the octave check does not
  compare with \<open>origOctaveCheck\<close> as the branches for note and octave compare with
  their originals.
\<close>

theorem unchanged_octave_check_is_rewritten:
  "pitches (PitchIterator_init
      [\<lparr>tclass = Note, ttext = ''c'', tpos = 0, tend = 1\<rparr>,
       \<lparr>tclass = OctaveCheck, ttext = [CHR ''='', CHR 0x27], tpos = 1, tend = 3\<rparr>]) =
   ([PitchObj \<lparr>note = 0, alter = 0, octave = 0,
        noteToken = \<lparr>tclass = Note, ttext = ''c'', tpos = 0, tend = 1\<rparr>,
        origOctave = 0, octaveSlice = Slice 1 1,
        octaveCheck = Some 1, origOctaveCheck = Some 1,
        octaveCheckSlice = Some (Slice 1 3)\<rparr>,
     Token \<lparr>tclass = OctaveCheck, ttext = [CHR ''='', CHR 0x27], tpos = 1, tend = 3\<rparr>],
    None)
   \<and> write_in ''nederlands'' 0 0 = Inr ''c''
   \<and> PitchIterator_write (PitchIterator_init [])
       \<lparr>note = 0, alter = 0, octave = 0,
        noteToken = \<lparr>tclass = Note, ttext = ''c'', tpos = 0, tend = 1\<rparr>,
        origOctave = 0, octaveSlice = Slice 1 1,
        octaveCheck = Some 1, origOctaveCheck = Some 1,
        octaveCheckSlice = Some (Slice 1 3)\<rparr> [] None =
     (None, [SetItem (Some (Slice 1 3)) [CHR ''='', CHR 0x27]])"
  by code_simp

text \<open>
  C5: when encoding the pitch in the target language raises \<open>PitchNameNotAvailable\<close>,
  \<open>write\<close> raises that exception and the document is the one it was given: nothing
  was asked of it.
\<close>

theorem write_aborts_before_any_edit:
  assumes "language_or lang self = Inr L"
    and "write_in L (note pitch) (alter pitch) = Inl (PitchNameNotAvailable L')"
  shows "PitchIterator_write self pitch doc lang = (Some (PitchNameNotAvailable L'), doc)"
  using assms by (auto simp: PitchIterator_write_def write_in_def split: sum.splits)

theorem write_aborts_before_any_edit_witness:
  "language_or (Some ''espanol'') (PitchIterator_init []) = Inr ''espanol''
   \<and> write_in ''espanol'' 0 (1 / 4) = Inl (PitchNameNotAvailable ''espanol'')
   \<and> PitchIterator_write (PitchIterator_init [])
       \<lparr>note = 0, alter = 1 / 4, octave = 2,
        noteToken = \<lparr>tclass = Note, ttext = ''c'', tpos = 0, tend = 1\<rparr>,
        origOctave = 0, octaveSlice = Slice 1 1,
        octaveCheck = None, origOctaveCheck = Some 1,
        octaveCheckSlice = Some (Slice 1 3)\<rparr>
       [DelItem (Some (Slice 7 8))] (Some ''espanol'') =
     (Some (PitchNameNotAvailable ''espanol''), [DelItem (Some (Slice 7 8))])"
proof -
  have 1: "language_or (Some ''espanol'') (PitchIterator_init []) = Inr ''espanol''"
    by (simp add: language_or_def)
  have 2: "write_in ''espanol'' 0 (1 / 4) = Inl (PitchNameNotAvailable ''espanol'')"
    by code_simp
  show ?thesis
    using 1 2 write_aborts_before_any_edit
       [of "Some ''espanol''" "PitchIterator_init []" "''espanol''"
       "\<lparr>note = 0, alter = 1 / 4, octave = 2,
        noteToken = \<lparr>tclass = Note, ttext = ''c'', tpos = 0, tend = 1\<rparr>,
        origOctave = 0, octaveSlice = Slice 1 1,
        octaveCheck = None, origOctaveCheck = Some 1,
        octaveCheckSlice = Some (Slice 1 3)\<rparr>" "''espanol''" "[DelItem (Some (Slice 7 8))]"]
    by simp
qed

end
